theory Spec2Isabelle
  imports Main "HOL-Library.Word"
begin

unbundle bit_operations_syntax

section \<open>Link layer: constants of link_layer.c\<close>

type_synonym u8 = "8 word"

abbreviation FLAG :: u8 where "FLAG \<equiv> 0x7E"
abbreviation A_SENDER :: u8 where "A_SENDER \<equiv> 0x03"
abbreviation A_RECEIVER :: u8 where "A_RECEIVER \<equiv> 0x01"
abbreviation C_RR0 :: u8 where "C_RR0 \<equiv> 0x05"
abbreviation C_RR1 :: u8 where "C_RR1 \<equiv> 0x85"
abbreviation C_REJ0 :: u8 where "C_REJ0 \<equiv> 0x01"
abbreviation C_REJ1 :: u8 where "C_REJ1 \<equiv> 0x81"

definition MAX_RETRIES :: nat where
  "MAX_RETRIES = 3"

section \<open>Byte stuffing\<close>

text \<open>
  \<open>stuffData\<close> walks the \<open>size\<close> input bytes once and appends one or two bytes to
  \<open>dest\<close> for each of them; the model returns the bytes \<open>dest[0..j)\<close>, and
  \<open>*destSize\<close> is the length of that list.
\<close>

fun stuffData :: "u8 list \<Rightarrow> u8 list" where
  "stuffData [] = []"
| "stuffData (b # bs) =
     (if b = FLAG then 0x7D # 0x5E # stuffData bs
      else if b = 0x7D then 0x7D # 0x5D # stuffData bs
      else b # stuffData bs)"

text \<open>
  \<open>destuffData\<close>: on an escape byte the index is advanced first; when that leaves the
  input (\<open>i < size\<close> fails) nothing is stored and the loop ends, so a trailing escape is
  dropped silently. After an escape, \<open>0x5E\<close> gives the flag and every other byte gives
  \<open>0x7D\<close>.
\<close>

fun destuffData :: "u8 list \<Rightarrow> u8 list" where
  "destuffData [] = []"
| "destuffData [b] = (if b = 0x7D then [] else [b])"
| "destuffData (b # c # cs) =
     (if b = 0x7D then (if c = 0x5E then FLAG else 0x7D) # destuffData cs
      else b # destuffData (c # cs))"

section \<open>Serial port and session state\<close>

text \<open>
  The serial port is the environment. What \<open>readByteSerialPort\<close> and the timer give
  the reading loops is a finite list of events in the order the loops observe them: a
  byte, a read that returns no byte, or the expiry of the timer armed last (the handler
  sets \<open>alarmFlag\<close>). Every \<open>writeBytesSerialPort\<close> call is appended to \<open>tx\<close>.
  \<open>sequenceNumber\<close> is the file-level static of link_layer.c and \<open>expectedSeq\<close> the
  static local of \<open>llread\<close>; both start at 0.
\<close>

datatype rx_event = RxByte u8 | RxNone | RxAlarm

record link_state =
  sequenceNumber :: int
  expectedSeq :: int
  rx :: "rx_event list"
  tx :: "u8 list list"

definition initial_state :: "rx_event list \<Rightarrow> link_state" where
  "initial_state evs = \<lparr>sequenceNumber = 0, expectedSeq = 0, rx = evs, tx = []\<rparr>"

definition writeBytesSerialPort :: "u8 list \<Rightarrow> link_state \<Rightarrow> link_state" where
  "writeBytesSerialPort bytes st = st\<lparr>tx := tx st @ [bytes]\<rparr>"

section \<open>llwrite\<close>

text \<open>The BCC2 loop of \<open>llwrite\<close>: \<open>bcc2 = 0; for (...) bcc2 ^= buf[i]\<close>.\<close>

definition BCC2 :: "u8 list \<Rightarrow> u8" where
  "BCC2 buf = foldl (\<lambda>bcc2 b. bcc2 XOR b) 0 buf"

text \<open>
  The frame \<open>llwrite\<close> builds in one loop iteration: the bytes it stores at
  \<open>frame[0 .. totalSize)\<close>, which are the bytes handed to the port. The array is
  declared with \<open>frame_capacity bufSize\<close> elements; the stores go to the indices below
  the length of the list returned here.
\<close>

definition iframe :: "int \<Rightarrow> u8 list \<Rightarrow> u8 list" where
  "iframe sn buf =
     (let control = (if sn = 0 then 0x00 else 0x40);
          dataWithBCC = buf @ [BCC2 buf];
          stuffed = stuffData dataWithBCC
      in [FLAG, A_SENDER, control, A_SENDER XOR control] @ stuffed @ [FLAG])"

definition frame_capacity :: "nat \<Rightarrow> nat" where
  "frame_capacity bufSize = 2 * bufSize + 6"

text \<open>
  One byte through the \<open>switch (state)\<close> of the acknowledgment wait. The result is the
  new \<open>state\<close>, \<open>receivedControl\<close> and \<open>ackReceived\<close>.
\<close>

definition ack_step :: "int \<Rightarrow> nat \<Rightarrow> u8 \<Rightarrow> u8 \<Rightarrow> nat \<times> u8 \<times> bool" where
  "ack_step sn state receivedControl byte =
     (if state = 0 then
        (if byte = FLAG then (1, receivedControl, False) else (0, receivedControl, False))
      else if state = 1 then
        (if byte = A_RECEIVER then (2, receivedControl, False)
         else if byte \<noteq> FLAG then (0, receivedControl, False)
         else (1, receivedControl, False))
      else if state = 2 then
        (if byte = (if sn = 0 then C_RR1 else C_RR0) then (3, byte, False)
         else if byte = (if sn = 0 then C_REJ0 else C_REJ1) then (3, byte, False)
         else if byte = FLAG then (1, byte, False)
         else (0, byte, False))
      else if state = 3 then
        (if byte = A_RECEIVER XOR receivedControl then (4, receivedControl, False)
         else if byte = FLAG then (1, receivedControl, False)
         else (0, receivedControl, False))
      else if state = 4 then
        (if byte = FLAG then (4, receivedControl, True) else (0, receivedControl, False))
      else (state, receivedControl, False))"

text \<open>
  The loop \<open>while (!alarmFlag && !ackReceived)\<close>. It ends with \<open>ackReceived\<close> set, or
  when the timer fires; an input with no event left is a silent line, on which the
  armed timer fires. The result is \<open>ackReceived\<close>, \<open>receivedControl\<close> and the events
  not consumed.
\<close>

fun await_ack :: "int \<Rightarrow> nat \<Rightarrow> u8 \<Rightarrow> rx_event list \<Rightarrow> bool \<times> u8 \<times> rx_event list" where
  "await_ack sn state receivedControl [] = (False, receivedControl, [])"
| "await_ack sn state receivedControl (RxAlarm # evs) = (False, receivedControl, evs)"
| "await_ack sn state receivedControl (RxNone # evs) = await_ack sn state receivedControl evs"
| "await_ack sn state receivedControl (RxByte byte # evs) =
     (case ack_step sn state receivedControl byte of
        (state', receivedControl', ackReceived) \<Rightarrow>
          if ackReceived then (True, receivedControl', evs)
          else await_ack sn state' receivedControl' evs)"

text \<open>
  The loop \<open>while (retries < MAX_RETRIES)\<close> of \<open>llwrite\<close>, with the bound as a
  parameter. The result is the return value and the state left behind.
\<close>

function llwrite_loop :: "nat \<Rightarrow> u8 list \<Rightarrow> nat \<Rightarrow> link_state \<Rightarrow> int \<times> link_state" where
  "llwrite_loop maxRetries buf retries st =
     (if retries < maxRetries then
        (let st1 = writeBytesSerialPort (iframe (sequenceNumber st) buf) st in
         case await_ack (sequenceNumber st1) 0 0 (rx st1) of
           (ackReceived, receivedControl, evs) \<Rightarrow>
             (let st2 = st1\<lparr>rx := evs\<rparr> in
              if ackReceived then
                (if receivedControl = (if sequenceNumber st2 = 0 then C_RR1 else C_RR0)
                 then (int (length buf), st2\<lparr>sequenceNumber := sequenceNumber st2 XOR 1\<rparr>)
                 else llwrite_loop maxRetries buf (retries + 1) st2)
              else llwrite_loop maxRetries buf (retries + 1) st2))
      else (- 1, st))"
  by pat_completeness auto
termination
  by (relation "measure (\<lambda>(maxRetries, buf, retries, st). maxRetries - retries)") auto

declare llwrite_loop.simps [simp del]

definition llwrite :: "u8 list \<Rightarrow> link_state \<Rightarrow> int \<times> link_state" where
  "llwrite buf st = llwrite_loop MAX_RETRIES buf 0 st"

text \<open>
  Every wait of \<open>n\<close> successive attempts ends with the timer and no acknowledgment
  accepted.
\<close>

fun every_wait_times_out :: "nat \<Rightarrow> int \<Rightarrow> rx_event list \<Rightarrow> bool" where
  "every_wait_times_out 0 sn evs = True"
| "every_wait_times_out (Suc n) sn evs =
     (case await_ack sn 0 0 evs of
        (ackReceived, receivedControl, rest) \<Rightarrow> \<not> ackReceived \<and> every_wait_times_out n sn rest)"

section \<open>llread\<close>

text \<open>
  The capture loop \<open>while (1)\<close> of \<open>llread\<close>. The first argument holds the bytes
  \<open>frame[0 .. idx)\<close>, the second is \<open>inFrame\<close>. The loop has no timer: it leaves only
  at the flag that ends a frame, so on an input that runs out before that flag the call
  never returns (\<open>None\<close>). A byte that arrives with \<open>idx = 2048\<close> resets the capture;
  a closing flag is stored without that test.
\<close>

fun capture_frame :: "u8 list \<Rightarrow> bool \<Rightarrow> rx_event list \<Rightarrow> (u8 list \<times> rx_event list) option" where
  "capture_frame frame inFrame [] = None"
| "capture_frame frame inFrame (RxNone # evs) = capture_frame frame inFrame evs"
| "capture_frame frame inFrame (RxAlarm # evs) = capture_frame frame inFrame evs"
| "capture_frame frame inFrame (RxByte byte # evs) =
     (if byte = FLAG then
        (if \<not> inFrame then capture_frame [byte] True evs
         else Some (frame @ [byte], evs))
      else if inFrame then
        (if length frame < 2048 then capture_frame (frame @ [byte]) True evs
         else capture_frame [] False evs)
      else capture_frame frame inFrame evs)"

text \<open>The label \<open>send_rej\<close>: REJ for the current expected sequence, return \<open>-1\<close>.\<close>

definition send_rej :: "u8 list \<Rightarrow> link_state \<Rightarrow> int \<times> u8 list \<times> link_state" where
  "send_rej packet st =
     (let rej = (if expectedSeq st = 0 then C_REJ0 else C_REJ1);
          rejFrame = [FLAG, A_RECEIVER, rej, A_RECEIVER XOR rej, FLAG]
      in (- 1, packet, writeBytesSerialPort rejFrame st))"

text \<open>
  \<open>memcpy(dest, src, n)\<close> on the caller's buffer: the first \<open>n\<close> bytes are replaced,
  the rest is kept. The caller provides a buffer that is large enough.
\<close>

definition memcpy :: "u8 list \<Rightarrow> u8 list \<Rightarrow> nat \<Rightarrow> u8 list" where
  "memcpy dest src n = take n src @ drop n dest"

text \<open>
  \<open>llread\<close> after the capture loop, on the captured bytes \<open>frame[0 .. idx)\<close>. The
  result is the return value, the caller's \<open>packet\<close> buffer and the state.
\<close>

definition llread_frame :: "u8 list \<Rightarrow> u8 list \<Rightarrow> link_state \<Rightarrow> int \<times> u8 list \<times> link_state" where
  "llread_frame frame packet st =
     (let idx = length frame in
      if idx < 5 then send_rej packet st
      else if (frame ! 1 XOR frame ! 2) \<noteq> frame ! 3 then send_rej packet st
      else
        (let control = frame ! 2;
             receivedSeq = (if control AND 0x40 \<noteq> 0 then 1 else 0 :: int)
         in
         if receivedSeq \<noteq> expectedSeq st then
           (let rr = (if expectedSeq st = 0 then C_RR1 else C_RR0);
                rrFrame = [FLAG, A_RECEIVER, rr, A_RECEIVER XOR rr, FLAG]
            in (- 1, packet, writeBytesSerialPort rrFrame st))
         else
           (let data = destuffData (take (idx - 5) (drop 4 frame));
                dataSize = length data
            in
            if dataSize < 1 then send_rej packet st
            else if BCC2 (take (dataSize - 1) data) \<noteq> data ! (dataSize - 1)
            then send_rej packet st
            else
              (let rr = (if expectedSeq st = 0 then C_RR1 else C_RR0);
                   rrFrame = [FLAG, A_RECEIVER, rr, A_RECEIVER XOR rr, FLAG];
                   st1 = writeBytesSerialPort rrFrame st
               in (int (dataSize - 1), memcpy packet data (dataSize - 1),
                   st1\<lparr>expectedSeq := expectedSeq st1 XOR 1\<rparr>)))))"

definition llread :: "u8 list \<Rightarrow> link_state \<Rightarrow> (int \<times> u8 list \<times> link_state) option" where
  "llread packet st =
     (case capture_frame [] False (rx st) of
        None \<Rightarrow> None
      | Some (frame, evs) \<Rightarrow> Some (llread_frame frame packet (st\<lparr>rx := evs\<rparr>)))"

text \<open>
  The bytes that \<open>readByteSerialPort\<close> delivers from a list of events, in order.
\<close>

fun bytes_of :: "rx_event list \<Rightarrow> u8 list" where
  "bytes_of [] = []"
| "bytes_of (RxByte byte # evs) = byte # bytes_of evs"
| "bytes_of (RxNone # evs) = bytes_of evs"
| "bytes_of (RxAlarm # evs) = bytes_of evs"

text \<open>
  The events \<open>evs\<close> bring the frame \<open>frame\<close>: their last event is a flag byte, and their
  bytes are bytes other than the flag followed by the bytes of \<open>frame\<close>. Empty reads and
  timer expiries may stand anywhere among them.
\<close>

definition frame_arrives :: "rx_event list \<Rightarrow> u8 list \<Rightarrow> bool" where
  "frame_arrives evs frame =
     (evs \<noteq> [] \<and> last evs = RxByte FLAG \<and>
      dropWhile (\<lambda>byte. byte \<noteq> FLAG) (bytes_of evs) = frame)"

section \<open>Successive calls\<close>

text \<open>
  The application layer calls \<open>llwrite\<close> once per packet and \<open>llread\<close> in a loop.
  \<open>llwrite_all\<close> makes the calls for a list of payloads in order and records for each
  call the sequence bit in force when it was made, its return value and the frames it put
  on the port. \<open>llread_all\<close> makes \<open>n\<close> calls, handing the buffer on, and records the
  expected bit in force at each call and the return value; it is \<open>None\<close> when one of the
  calls never returns.
\<close>

fun llwrite_all :: "u8 list list \<Rightarrow> link_state \<Rightarrow> (int \<times> int \<times> u8 list list) list \<times> link_state" where
  "llwrite_all [] st = ([], st)"
| "llwrite_all (buf # bufs) st =
     (case llwrite buf st of
        (ret, st1) \<Rightarrow>
          (case llwrite_all bufs st1 of
             (calls, st2) \<Rightarrow>
               ((sequenceNumber st, ret, drop (length (tx st)) (tx st1)) # calls, st2)))"

fun llread_all :: "nat \<Rightarrow> u8 list \<Rightarrow> link_state \<Rightarrow> ((int \<times> int) list \<times> u8 list \<times> link_state) option" where
  "llread_all 0 packet st = Some ([], packet, st)"
| "llread_all (Suc n) packet st =
     (case llread packet st of
        None \<Rightarrow> None
      | Some (ret, packet1, st1) \<Rightarrow>
          (case llread_all n packet1 st1 of
             None \<Rightarrow> None
           | Some (calls, packet2, st2) \<Rightarrow> Some ((expectedSeq st, ret) # calls, packet2, st2)))"

text \<open>A list of sequence bits that starts with \<open>b\<close> and changes at every position.\<close>

fun alternates_from :: "int \<Rightarrow> int list \<Rightarrow> bool" where
  "alternates_from b [] = True"
| "alternates_from b (x # xs) = (x = b \<and> alternates_from (1 - b) xs)"

text \<open>Every frame of a call carries the control byte of the call's sequence bit.\<close>

definition frames_carry_seq :: "int \<times> int \<times> u8 list list \<Rightarrow> bool" where
  "frames_carry_seq c =
     (case c of (sn, ret, frames) \<Rightarrow>
        frames \<noteq> [] \<and> list_all (\<lambda>f. f ! 2 = (if sn = 0 then 0x00 else 0x40)) frames)"

text \<open>
  None of \<open>n\<close> successive waits accepts the RR for the next sequence: each ends with the
  timer or with the REJ for the current sequence accepted.
\<close>

fun no_rr_accepted :: "nat \<Rightarrow> int \<Rightarrow> rx_event list \<Rightarrow> bool" where
  "no_rr_accepted 0 sn evs = True"
| "no_rr_accepted (Suc n) sn evs =
     (case await_ack sn 0 0 evs of
        (ackReceived, receivedControl, rest) \<Rightarrow>
          \<not> (ackReceived \<and> receivedControl = (if sn = 0 then C_RR1 else C_RR0)) \<and>
          no_rr_accepted n sn rest)"

section \<open>Application layer: control packets\<close>

text \<open>
  \<open>long\<close> is the 64-bit signed integer of the LP64 targets the program is written for
  (\<open>sizeBytes\<close> has 8 elements); \<open>>>\<close> on it is the arithmetic shift and the comparison
  with 0 is signed.
\<close>

type_synonym long = "64 word"

abbreviation TLV_FILE_SIZE :: u8 where "TLV_FILE_SIZE \<equiv> 0x00"
abbreviation TLV_FILE_NAME :: u8 where "TLV_FILE_NAME \<equiv> 0x01"

text \<open>
  The \<open>do ... while (tempSize > 0)\<close> loop of \<open>buildControlPacket\<close>: the bytes stored in
  \<open>sizeBytes[0 .. numSizeBytes)\<close>, least significant first.
\<close>

function sizeBytes_loop :: "long \<Rightarrow> u8 list" where
  "sizeBytes_loop tempSize =
     ucast (tempSize AND 0xFF) #
       (if 0 <s signed_drop_bit 8 tempSize then sizeBytes_loop (signed_drop_bit 8 tempSize)
        else [])"
  by pat_completeness auto
termination
proof (relation "measure (\<lambda>tempSize. nat (sint tempSize))")
  show "wf (measure (\<lambda>tempSize :: long. nat (sint tempSize)))" by simp
next
  fix tempSize :: long
  assume "0 <s signed_drop_bit 8 tempSize"
  then have pos: "0 < sint tempSize div 256"
    by (simp add: word_sless_alt sint_signed_drop_bit_eq drop_bit_eq_div)
  then have "sint tempSize div 256 < sint tempSize" by linarith
  with pos show "(signed_drop_bit 8 tempSize, tempSize) \<in> measure (\<lambda>tempSize. nat (sint tempSize))"
    by (simp add: sint_signed_drop_bit_eq drop_bit_eq_div)
qed

declare sizeBytes_loop.simps [simp del]

text \<open>
  \<open>strlen\<close> of the bytes at a \<open>char\<close> pointer: the number of bytes before the first
  NUL.
\<close>

definition strlen :: "u8 list \<Rightarrow> nat" where
  "strlen s = length (takeWhile (\<lambda>c. c \<noteq> 0) s)"

text \<open>
  \<open>buildControlPacket\<close>: the bytes stored at \<open>packet[0 .. idx)\<close>; the return value
  \<open>idx\<close> is the length of the list. The size bytes are written from
  \<open>sizeBytes[numSizeBytes - 1]\<close> down to \<open>sizeBytes[0]\<close>.
\<close>

definition buildControlPacket :: "u8 \<Rightarrow> u8 list \<Rightarrow> long \<Rightarrow> u8 list" where
  "buildControlPacket controlField filename fileSize =
     (let sizeBytes = sizeBytes_loop fileSize;
          numSizeBytes = length sizeBytes;
          nameLen = (if strlen filename > 255 then 255 else strlen filename)
      in [controlField, TLV_FILE_SIZE, of_nat numSizeBytes] @ rev sizeBytes @
         [TLV_FILE_NAME, of_nat nameLen] @ take nameLen filename)"

text \<open>
  The \<open>while (idx < packetSize)\<close> loop of \<open>parseControlPacket\<close>. The result is the
  return value, \<open>*fileSize\<close> and the string left in \<open>filename\<close> (the bytes before the
  terminator the code writes). When the type byte is the last byte of the packet, the
  length byte is read from behind the packet; whatever it is, \<open>idx + length\<close> then
  exceeds \<open>packetSize\<close> and the result is \<open>-1\<close>.
\<close>

function parse_loop :: "u8 list \<Rightarrow> nat \<Rightarrow> nat \<Rightarrow> long \<Rightarrow> u8 list \<Rightarrow> int \<times> long \<times> u8 list" where
  "parse_loop packet packetSize idx fileSize filename =
     (if idx < packetSize then
        (if packetSize \<le> idx + 1 then (- 1, fileSize, filename)
         else
           (let type = packet ! idx;
                len = unat (packet ! (idx + 1));
                idx2 = idx + 2
            in
            if idx2 + len > packetSize then (- 1, fileSize, filename)
            else if type = TLV_FILE_SIZE then
              parse_loop packet packetSize (idx2 + len)
                (foldl (\<lambda>fs b. push_bit 8 fs OR ucast b) fileSize (take len (drop idx2 packet)))
                filename
            else if type = TLV_FILE_NAME then
              parse_loop packet packetSize (idx2 + len) fileSize (take len (drop idx2 packet))
            else parse_loop packet packetSize (idx2 + len) fileSize filename))
      else (0, fileSize, filename))"
  by pat_completeness auto
termination
  by (relation "measure (\<lambda>(packet, packetSize, idx, fileSize, filename). packetSize - idx)") auto

declare parse_loop.simps [simp del]

text \<open>
  \<open>parseControlPacket\<close> starts behind the control field with \<open>*fileSize = 0\<close> and an
  empty \<open>filename\<close>.
\<close>

definition parseControlPacket :: "u8 list \<Rightarrow> nat \<Rightarrow> int \<times> long \<times> u8 list" where
  "parseControlPacket packet packetSize = parse_loop packet packetSize 1 0 []"

section \<open>Stuffing round trip\<close>

lemma destuffData_Cons_plain:
  "b \<noteq> 0x7D \<Longrightarrow> destuffData (b # bs) = b # destuffData bs"
  by (cases bs) simp_all

lemma destuffData_stuffData: "destuffData (stuffData s) = s"
  by (induction s) (simp_all add: destuffData_Cons_plain)

text \<open>
  C5. For every byte sequence \<open>s\<close>, destuffing the stuffed sequence gives \<open>s\<close> back.
\<close>

theorem destuff_stuff_roundtrip: "destuffData (stuffData s) = s"
  by (rule destuffData_stuffData)

section \<open>Properties of llwrite\<close>

lemma llwrite_loop_timeouts:
  "every_wait_times_out (N - r) (sequenceNumber st) (rx st) \<Longrightarrow> r \<le> N \<Longrightarrow>
   \<exists>evs. llwrite_loop N buf r st =
     (- 1, st\<lparr>rx := evs, tx := tx st @ replicate (N - r) (iframe (sequenceNumber st) buf)\<rparr>)"
proof (induction "N - r" arbitrary: r st)
  case 0
  then have "r = N" by simp
  then show ?case by (simp add: llwrite_loop.simps[of N buf N st]) (rule exI[of _ "rx st"], simp)
next
  case (Suc n)
  then have rlt: "r < N" and n: "n = N - (r + 1)" and Nr: "N - r = Suc n" by simp_all
  obtain a c evs where aw: "await_ack (sequenceNumber st) 0 0 (rx st) = (a, c, evs)"
    by (cases "await_ack (sequenceNumber st) 0 0 (rx st)") auto
  from Suc.prems(1) Nr aw have na: "\<not> a" and rest: "every_wait_times_out n (sequenceNumber st) evs"
    by simp_all
  let ?st2 = "(writeBytesSerialPort (iframe (sequenceNumber st) buf) st)\<lparr>rx := evs\<rparr>"
  have step: "llwrite_loop N buf r st = llwrite_loop N buf (r + 1) ?st2"
    using rlt aw na by (subst llwrite_loop.simps) (simp add: writeBytesSerialPort_def Let_def)
  have "\<exists>evs'. llwrite_loop N buf (r + 1) ?st2 =
     (- 1, ?st2\<lparr>rx := evs', tx := tx ?st2 @ replicate (N - (r + 1)) (iframe (sequenceNumber ?st2) buf)\<rparr>)"
    using Suc.hyps(1)[of "r + 1" ?st2] n rest rlt by (simp add: writeBytesSerialPort_def)
  then show ?case using step Nr n
    by (auto simp add: writeBytesSerialPort_def replicate_app_Cons_same)
qed

lemma llwrite_loop_shape:
  "r \<le> N \<Longrightarrow>
   \<exists>k evs. k \<le> N - r \<and> (r < N \<longrightarrow> 0 < k) \<and>
     (llwrite_loop N buf r st =
        (- 1, st\<lparr>rx := evs, tx := tx st @ replicate k (iframe (sequenceNumber st) buf)\<rparr>) \<or>
      llwrite_loop N buf r st =
        (int (length buf),
         st\<lparr>sequenceNumber := sequenceNumber st XOR 1, rx := evs,
            tx := tx st @ replicate k (iframe (sequenceNumber st) buf)\<rparr>))"
proof (induction "N - r" arbitrary: r st)
  case 0
  then have "r = N" by simp
  then have "llwrite_loop N buf r st = (- 1, st\<lparr>rx := rx st, tx := tx st @ replicate 0 (iframe (sequenceNumber st) buf)\<rparr>)"
    by (simp add: llwrite_loop.simps[of N buf N st])
  then show ?case using \<open>r = N\<close> by blast
next
  case (Suc n)
  then have rlt: "r < N" and n: "n = N - (r + 1)" and Nr: "N - r = Suc n" by simp_all
  let ?F = "iframe (sequenceNumber st) buf"
  obtain a c evs where aw: "await_ack (sequenceNumber st) 0 0 (rx st) = (a, c, evs)"
    by (cases "await_ack (sequenceNumber st) 0 0 (rx st)") auto
  let ?st2 = "(writeBytesSerialPort ?F st)\<lparr>rx := evs\<rparr>"
  show ?case
  proof (cases "a \<and> c = (if sequenceNumber st = 0 then C_RR1 else C_RR0)")
    case True
    then have "llwrite_loop N buf r st =
        (int (length buf),
         st\<lparr>sequenceNumber := sequenceNumber st XOR 1, rx := evs,
            tx := tx st @ replicate 1 ?F\<rparr>)"
      using rlt aw by (subst llwrite_loop.simps) (simp add: writeBytesSerialPort_def Let_def)
    moreover have "(1::nat) \<le> N - r" "0 < (1::nat)" using rlt by simp_all
    ultimately show ?thesis by blast
  next
    case False
    then have step: "llwrite_loop N buf r st = llwrite_loop N buf (r + 1) ?st2"
      using rlt aw by (subst llwrite_loop.simps) (auto simp add: writeBytesSerialPort_def Let_def)
    have sn2: "sequenceNumber ?st2 = sequenceNumber st" and tx2: "tx ?st2 = tx st @ [?F]"
      by (simp_all add: writeBytesSerialPort_def)
    from Suc.hyps(1)[of "r + 1" ?st2] n rlt
    obtain k evs' where k: "k \<le> N - (r + 1)"
      and res: "llwrite_loop N buf (r + 1) ?st2 =
          (- 1, ?st2\<lparr>rx := evs', tx := tx ?st2 @ replicate k (iframe (sequenceNumber ?st2) buf)\<rparr>) \<or>
        llwrite_loop N buf (r + 1) ?st2 =
          (int (length buf),
           ?st2\<lparr>sequenceNumber := sequenceNumber ?st2 XOR 1, rx := evs',
             tx := tx ?st2 @ replicate k (iframe (sequenceNumber ?st2) buf)\<rparr>)"
      by auto
    have a1: "?st2\<lparr>rx := evs', tx := tx ?st2 @ replicate k (iframe (sequenceNumber ?st2) buf)\<rparr>
          = st\<lparr>rx := evs', tx := tx st @ replicate (Suc k) ?F\<rparr>"
      by (simp add: writeBytesSerialPort_def replicate_app_Cons_same)
    have a2: "?st2\<lparr>sequenceNumber := sequenceNumber ?st2 XOR 1, rx := evs',
             tx := tx ?st2 @ replicate k (iframe (sequenceNumber ?st2) buf)\<rparr>
          = st\<lparr>sequenceNumber := sequenceNumber st XOR 1, rx := evs', tx := tx st @ replicate (Suc k) ?F\<rparr>"
      by (simp add: writeBytesSerialPort_def replicate_app_Cons_same)
    have "Suc k \<le> N - r" using k rlt by simp
    moreover have "llwrite_loop N buf r st = (- 1, st\<lparr>rx := evs', tx := tx st @ replicate (Suc k) ?F\<rparr>) \<or>
      llwrite_loop N buf r st = (int (length buf),
        st\<lparr>sequenceNumber := sequenceNumber st XOR 1, rx := evs', tx := tx st @ replicate (Suc k) ?F\<rparr>)"
      using res step a1 a2 by simp
    ultimately show ?thesis by blast
  qed
qed

text \<open>
  C1 (as amended). For every retry bound \<open>N\<close> and every payload, when every wait ends
  with the timer and no acknowledgment accepted, the loop of \<open>llwrite\<close> returns
  \<open>-1\<close> after exactly \<open>N\<close> transmissions of the same I-frame (not \<open>N + 1\<close>), and
  the sender sequence bit is unchanged. \<open>llwrite\<close> is this loop at
  \<open>N = MAX_RETRIES = 3\<close>.
\<close>

theorem llwrite_gives_up_after_N_transmissions:
  assumes "every_wait_times_out N (sequenceNumber st) (rx st)"
  shows "fst (llwrite_loop N buf 0 st) = - 1 \<and>
         tx (snd (llwrite_loop N buf 0 st)) = tx st @ replicate N (iframe (sequenceNumber st) buf) \<and>
         sequenceNumber (snd (llwrite_loop N buf 0 st)) = sequenceNumber st"
proof -
  from llwrite_loop_timeouts[of N 0 st buf] assms
  obtain evs where "llwrite_loop N buf 0 st =
     (- 1, st\<lparr>rx := evs, tx := tx st @ replicate N (iframe (sequenceNumber st) buf)\<rparr>)"
    by auto
  then show ?thesis by simp
qed

theorem llwrite_gives_up_witness:
  "every_wait_times_out MAX_RETRIES 0 [RxByte 0x55, RxAlarm, RxNone, RxAlarm] \<and>
   fst (llwrite [0x48, 0x69] (initial_state [RxByte 0x55, RxAlarm, RxNone, RxAlarm])) = - 1 \<and>
   tx (snd (llwrite [0x48, 0x69] (initial_state [RxByte 0x55, RxAlarm, RxNone, RxAlarm]))) =
     replicate 3 [0x7E, 0x03, 0x00, 0x03, 0x48, 0x69, 0x21, 0x7E]"
proof -
  have h: "every_wait_times_out MAX_RETRIES 0 [RxByte 0x55, RxAlarm, RxNone, RxAlarm]"
    by (simp add: MAX_RETRIES_def eval_nat_numeral ack_step_def)
  have fr: "iframe 0 [0x48, 0x69] = [0x7E, 0x03, 0x00, 0x03, 0x48, 0x69, 0x21, 0x7E]"
    by (simp add: iframe_def BCC2_def)
  show ?thesis
    using h llwrite_gives_up_after_N_transmissions
      [of MAX_RETRIES "initial_state [RxByte 0x55, RxAlarm, RxNone, RxAlarm]" "[0x48, 0x69]"]
    by (simp add: initial_state_def llwrite_def fr) (simp add: MAX_RETRIES_def)
qed

text \<open>
  On a silent line \<open>llwrite\<close> fails after 3 transmissions, which is \<open>MAX_RETRIES\<close>
  and not \<open>MAX_RETRIES + 1\<close>.
\<close>

theorem llwrite_gives_up_counterexample:
  "every_wait_times_out MAX_RETRIES 0 [] \<and>
   fst (llwrite [0x48, 0x69] (initial_state [])) = - 1 \<and>
   length (tx (snd (llwrite [0x48, 0x69] (initial_state [])))) = 3 \<and>
   length (tx (snd (llwrite [0x48, 0x69] (initial_state [])))) \<noteq> MAX_RETRIES + 1"
  by (simp add: MAX_RETRIES_def eval_nat_numeral llwrite_def llwrite_loop.simps initial_state_def
      writeBytesSerialPort_def)

lemma stuffData_concat:
  "stuffData s =
   concat (map (\<lambda>b. if b = 0x7E then [0x7D, 0x5E] else if b = 0x7D then [0x7D, 0x5D] else [b]) s)"
  by (induction s) simp_all

text \<open>
  C6. Every transmission of one \<open>llwrite\<close> call puts on the port exactly
  \<open>7E 03 C (03 XOR C) S 7E\<close>, at least once and at most \<open>MAX_RETRIES\<close> times, where
  \<open>C = 0x00\<close> when the sequence bit is 0 and \<open>0x40\<close> otherwise, BCC2 is the XOR of the
  payload bytes and \<open>S\<close> is the payload followed by BCC2 with every \<open>7E\<close> replaced by
  \<open>7D 5E\<close>, every \<open>7D\<close> by \<open>7D 5D\<close> and every other byte kept. For the payload
  \<open>48 69\<close> at sequence bit 0 the bytes are \<open>7E 03 00 03 48 69 21 7E\<close>; for \<open>7D 7E\<close> at
  bit 0 they are \<open>7E 03 00 03 7D 5D 7D 5E 03 7E\<close>; for \<open>01 7F\<close> at bit 1, where BCC2 is
  \<open>7E\<close>, they are \<open>7E 03 40 43 01 7F 7D 5E 7E\<close>.
\<close>

theorem llwrite_emits_iframe:
  "(\<exists>k. 0 < k \<and> k \<le> MAX_RETRIES \<and>
      tx (snd (llwrite buf st)) = tx st @ replicate k
        ([0x7E, 0x03, (if sequenceNumber st = 0 then 0x00 else 0x40),
          0x03 XOR (if sequenceNumber st = 0 then 0x00 else 0x40)]
         @ concat (map (\<lambda>b. if b = 0x7E then [0x7D, 0x5E]
                             else if b = 0x7D then [0x7D, 0x5D] else [b])
                    (buf @ [foldl (\<lambda>x y. x XOR y) 0 buf]))
         @ [0x7E])) \<and>
   (\<exists>k. 0 < k \<and> k \<le> MAX_RETRIES \<and>
      tx (snd (llwrite [0x48, 0x69] (initial_state evs))) =
        replicate k [0x7E, 0x03, 0x00, 0x03, 0x48, 0x69, 0x21, 0x7E]) \<and>
   (\<exists>k. 0 < k \<and> k \<le> MAX_RETRIES \<and>
      tx (snd (llwrite [0x7D, 0x7E] (initial_state evs))) =
        replicate k [0x7E, 0x03, 0x00, 0x03, 0x7D, 0x5D, 0x7D, 0x5E, 0x03, 0x7E]) \<and>
   (\<exists>k. 0 < k \<and> k \<le> MAX_RETRIES \<and>
      tx (snd (llwrite [0x01, 0x7F]
                 \<lparr>sequenceNumber = 1, expectedSeq = 0, rx = evs, tx = []\<rparr>)) =
        replicate k [0x7E, 0x03, 0x40, 0x43, 0x01, 0x7F, 0x7D, 0x5E, 0x7E])"
proof -
  have gen: "\<exists>k. 0 < k \<and> k \<le> MAX_RETRIES \<and>
      tx (snd (llwrite b s)) = tx s @ replicate k
        ([0x7E, 0x03, (if sequenceNumber s = 0 then 0x00 else 0x40),
          0x03 XOR (if sequenceNumber s = 0 then 0x00 else 0x40)]
         @ concat (map (\<lambda>b. if b = 0x7E then [0x7D, 0x5E]
                             else if b = 0x7D then [0x7D, 0x5D] else [b])
                    (b @ [foldl (\<lambda>x y. x XOR y) 0 b]))
         @ [0x7E])" for b s
  proof -
    from llwrite_loop_shape[of 0 MAX_RETRIES b s]
    obtain k evs' where k: "k \<le> MAX_RETRIES" "0 < k"
      and res: "llwrite_loop MAX_RETRIES b 0 s =
          (- 1, s\<lparr>rx := evs', tx := tx s @ replicate k (iframe (sequenceNumber s) b)\<rparr>) \<or>
        llwrite_loop MAX_RETRIES b 0 s =
          (int (length b),
           s\<lparr>sequenceNumber := sequenceNumber s XOR 1, rx := evs',
             tx := tx s @ replicate k (iframe (sequenceNumber s) b)\<rparr>)"
      by (auto simp add: MAX_RETRIES_def)
    have fr: "iframe (sequenceNumber s) b =
        [0x7E, 0x03, (if sequenceNumber s = 0 then 0x00 else 0x40),
         0x03 XOR (if sequenceNumber s = 0 then 0x00 else 0x40)]
        @ concat (map (\<lambda>b. if b = 0x7E then [0x7D, 0x5E]
                            else if b = 0x7D then [0x7D, 0x5D] else [b])
                   (b @ [foldl (\<lambda>x y. x XOR y) 0 b]))
        @ [0x7E]"
      by (simp only: iframe_def BCC2_def Let_def stuffData_concat)
    from res have "tx (snd (llwrite b s)) = tx s @ replicate k (iframe (sequenceNumber s) b)"
      by (auto simp add: llwrite_def)
    with k fr show ?thesis by metis
  qed
  from gen[of "[0x48, 0x69]" "initial_state evs"]
  have hi: "\<exists>k. 0 < k \<and> k \<le> MAX_RETRIES \<and>
      tx (snd (llwrite [0x48, 0x69] (initial_state evs))) =
        replicate k [0x7E, 0x03, 0x00, 0x03, 0x48, 0x69, 0x21, 0x7E]"
    by (simp add: initial_state_def)
  from gen[of "[0x7D, 0x7E]" "initial_state evs"]
  have esc: "\<exists>k. 0 < k \<and> k \<le> MAX_RETRIES \<and>
      tx (snd (llwrite [0x7D, 0x7E] (initial_state evs))) =
        replicate k [0x7E, 0x03, 0x00, 0x03, 0x7D, 0x5D, 0x7D, 0x5E, 0x03, 0x7E]"
    by (simp add: initial_state_def)
  from gen[of "[0x01, 0x7F]" "\<lparr>sequenceNumber = 1, expectedSeq = 0, rx = evs, tx = []\<rparr>"]
  have bcc: "\<exists>k. 0 < k \<and> k \<le> MAX_RETRIES \<and>
      tx (snd (llwrite [0x01, 0x7F]
                 \<lparr>sequenceNumber = 1, expectedSeq = 0, rx = evs, tx = []\<rparr>)) =
        replicate k [0x7E, 0x03, 0x40, 0x43, 0x01, 0x7F, 0x7D, 0x5E, 0x7E]"
    by simp
  from gen[of buf st] hi esc bcc show ?thesis by blast
qed

lemma length_stuffData: "length (stuffData s) \<le> 2 * length s"
  by (induction s) simp_all

text \<open>The frame is never longer than \<open>2 * bufSize + 7\<close> bytes.\<close>

lemma length_iframe: "length (iframe sn buf) \<le> 2 * length buf + 7"
  using length_stuffData[of "buf @ [BCC2 buf]"] by (simp add: iframe_def Let_def)

text \<open>
  C7. The payload \<open>7E\<close> (length 1): both the payload byte and BCC2 are stuffed, the
  frame has 9 bytes and the array has \<open>2 * 1 + 6 = 8\<close>; the closing flag is stored at
  index 8.
\<close>

theorem llwrite_frame_exceeds_buffer:
  "iframe 0 [0x7E] = [0x7E, 0x03, 0x00, 0x03, 0x7D, 0x5E, 0x7D, 0x5E, 0x7E] \<and>
   length (iframe 0 [0x7E]) = 9 \<and>
   frame_capacity (length [0x7E :: u8]) = 8 \<and>
   \<not> length (iframe 0 [0x7E]) \<le> frame_capacity (length [0x7E :: u8])"
  by (simp add: iframe_def BCC2_def frame_capacity_def)

section \<open>Properties of llread\<close>

lemma llread_frame_cases:
  assumes "llread_frame frame packet st = (ret, packet', st')"
  shows "(ret = - 1 \<and> packet' = packet \<and> expectedSeq st' = expectedSeq st) \<or>
         (0 \<le> ret \<and> expectedSeq st' = expectedSeq st XOR 1 \<and>
          nat ret < length (destuffData (take (length frame - 5) (drop 4 frame))) \<and>
          packet' = memcpy packet (destuffData (take (length frame - 5) (drop 4 frame))) (nat ret))"
  using assms
  by (auto simp add: llread_frame_def send_rej_def writeBytesSerialPort_def Let_def
      split: if_splits)

lemma llread_SomeD:
  assumes "llread packet st = Some (ret, packet', st')"
  obtains frame evs where "capture_frame [] False (rx st) = Some (frame, evs)"
    and "llread_frame frame packet (st\<lparr>rx := evs\<rparr>) = (ret, packet', st')"
  using assms by (auto simp add: llread_def split: option.splits)

text \<open>
  C10. A call of \<open>llread\<close> that returns \<open>-1\<close> leaves the caller's buffer and the
  expected sequence bit as they were; every return is \<open>-1\<close> or non-negative, and only a
  non-negative return writes the buffer (the first \<open>ret\<close> bytes, by \<open>memcpy\<close>) and flips
  the bit.
\<close>

theorem llread_error_leaves_packet_and_seq:
  assumes "llread packet st = Some (ret, packet', st')"
  shows "(ret = - 1 \<or> 0 \<le> ret) \<and>
         (ret = - 1 \<longrightarrow> packet' = packet \<and> expectedSeq st' = expectedSeq st) \<and>
         (packet' \<noteq> packet \<or> expectedSeq st' \<noteq> expectedSeq st \<longrightarrow> 0 \<le> ret) \<and>
         (0 \<le> ret \<longrightarrow> expectedSeq st' = expectedSeq st XOR 1 \<and>
            drop (nat ret) packet' = drop (nat ret) packet)"
proof -
  from assms obtain frame evs
    where fr: "llread_frame frame packet (st\<lparr>rx := evs\<rparr>) = (ret, packet', st')"
    by (rule llread_SomeD)
  from llread_frame_cases[OF fr]
  show ?thesis by (auto simp add: memcpy_def)
qed


theorem llread_error_leaves_packet_witness:
  "llread [0, 0, 0, 0]
     (initial_state (map RxByte [0x7E, 0x03, 0x00, 0x03, 0x48, 0x69, 0x22, 0x7E])) =
   Some (- 1, [0, 0, 0, 0],
     \<lparr>sequenceNumber = 0, expectedSeq = 0, rx = [], tx = [[0x7E, 0x01, 0x01, 0x00, 0x7E]]\<rparr>)"
proof -
  have run: "llread [0, 0, 0, 0]
     (initial_state (map RxByte [0x7E, 0x03, 0x00, 0x03, 0x48, 0x69, 0x22, 0x7E])) =
   Some (- 1, [0, 0, 0, 0],
     \<lparr>sequenceNumber = 0, expectedSeq = 0, rx = [], tx = [[0x7E, 0x01, 0x01, 0x00, 0x7E]]\<rparr>)"
    by (simp add: llread_def llread_frame_def initial_state_def BCC2_def send_rej_def
        writeBytesSerialPort_def Let_def)
  from llread_error_leaves_packet_and_seq[OF run] run show ?thesis by simp
qed

text \<open>
  C2 (as amended). A captured frame of at least 5 bytes that passes BCC1 and carries the
  expected sequence bit, and whose destuffed body is empty or has a last byte different
  from the XOR of the bytes before it, is answered with REJ for the expected sequence
  bit (REJ0 if it is 0, else REJ1); \<open>llread\<close> returns \<open>-1\<close>, the caller's buffer and the
  expected bit are unchanged. The destuffed body is what \<open>destuffData\<close> returns, which
  drops a trailing escape byte without reporting it.
\<close>

theorem llread_rejects_bad_bcc2:
  assumes "capture_frame [] False (rx st) = Some (frame, evs)"
    and "5 \<le> length frame"
    and "frame ! 1 XOR frame ! 2 = frame ! 3"
    and "(if frame ! 2 AND 0x40 \<noteq> 0 then 1 else 0) = expectedSeq st"
    and "data = destuffData (take (length frame - 5) (drop 4 frame))"
    and "data = [] \<or> BCC2 (butlast data) \<noteq> last data"
  shows "llread packet st =
    Some (- 1, packet,
      st\<lparr>rx := evs,
         tx := tx st @ [[FLAG, A_RECEIVER, (if expectedSeq st = 0 then C_REJ0 else C_REJ1),
                         A_RECEIVER XOR (if expectedSeq st = 0 then C_REJ0 else C_REJ1), FLAG]]\<rparr>)"
proof (cases "data = []")
  case True
  with assms(1-5) show ?thesis
    by (simp add: llread_def llread_frame_def send_rej_def writeBytesSerialPort_def Let_def)
next
  case False
  then have "take (length data - 1) data = butlast data" "data ! (length data - 1) = last data"
    by (simp_all add: butlast_conv_take last_conv_nth)
  with False assms show ?thesis
    by (simp add: llread_def llread_frame_def send_rej_def writeBytesSerialPort_def Let_def)
qed

theorem llread_rejects_bad_bcc2_witness:
  "llread [0, 0, 0, 0]
     (initial_state (map RxByte [0x7E, 0x03, 0x00, 0x03, 0x48, 0x69, 0x22, 0x7E])) =
   Some (- 1, [0, 0, 0, 0],
     \<lparr>sequenceNumber = 0, expectedSeq = 0, rx = [], tx = [[0x7E, 0x01, 0x01, 0x00, 0x7E]]\<rparr>)"
proof -
  let ?st = "initial_state (map RxByte [0x7E, 0x03, 0x00, 0x03, 0x48, 0x69, 0x22, 0x7E])"
  let ?frame = "[0x7E, 0x03, 0x00, 0x03, 0x48, 0x69, 0x22, 0x7E] :: u8 list"
  have 1: "capture_frame [] False (rx ?st) = Some (?frame, [])"
    by (simp add: initial_state_def)
  have 2: "5 \<le> length ?frame" by simp
  have 3: "?frame ! 1 XOR ?frame ! 2 = ?frame ! 3" by simp
  have 4: "(if ?frame ! 2 AND 0x40 \<noteq> 0 then 1 else 0) = expectedSeq ?st"
    by (simp add: initial_state_def)
  have 5: "[0x48, 0x69, 0x22] = destuffData (take (length ?frame - 5) (drop 4 ?frame))"
    by simp
  have 6: "[0x48, 0x69, 0x22 :: u8] = [] \<or> BCC2 (butlast [0x48, 0x69, 0x22]) \<noteq> last [0x48, 0x69, 0x22]"
    by (simp add: BCC2_def)
  from llread_rejects_bad_bcc2[OF 1 2 3 4 5 6, of "[0, 0, 0, 0]"]
  show ?thesis by (simp add: initial_state_def)
qed

text \<open>
  Two frames that are not rejected with REJ. The stuffed region of the first ends
  in an unpaired escape \<open>7D\<close>: the escape is dropped, BCC2 matches, the payload
  \<open>48 69\<close> is delivered and RR1 is sent. The second has a wrong BCC2 and the sequence
  bit 1 while 0 is expected: the answer is RR1, not REJ0.
\<close>

theorem llread_rejects_bad_bcc2_counterexample:
  "llread [0, 0, 0, 0]
     (initial_state (map RxByte [0x7E, 0x03, 0x00, 0x03, 0x48, 0x69, 0x21, 0x7D, 0x7E])) =
   Some (2, [0x48, 0x69, 0, 0],
     \<lparr>sequenceNumber = 0, expectedSeq = 1, rx = [], tx = [[0x7E, 0x01, 0x85, 0x84, 0x7E]]\<rparr>) \<and>
   llread [0, 0, 0, 0]
     (initial_state (map RxByte [0x7E, 0x03, 0x40, 0x43, 0x48, 0x69, 0x22, 0x7E])) =
   Some (- 1, [0, 0, 0, 0],
     \<lparr>sequenceNumber = 0, expectedSeq = 0, rx = [], tx = [[0x7E, 0x01, 0x85, 0x84, 0x7E]]\<rparr>)"
  by (simp add: llread_def llread_frame_def initial_state_def BCC2_def memcpy_def
      send_rej_def writeBytesSerialPort_def Let_def)

text \<open>
  The duplicate branch: a frame of at least 5 bytes that passes BCC1 and whose sequence
  bit differs from the expected one is answered with \<open>(expectedSeq == 0) ? C_RR1 : C_RR0\<close>
  and is not delivered.
\<close>

lemma llread_duplicate_branch:
  assumes "capture_frame [] False (rx st) = Some (frame, evs)"
    and "5 \<le> length frame"
    and "frame ! 1 XOR frame ! 2 = frame ! 3"
    and "(if frame ! 2 AND 0x40 \<noteq> 0 then 1 else 0) \<noteq> expectedSeq st"
  shows "llread packet st =
    Some (- 1, packet,
      st\<lparr>rx := evs,
         tx := tx st @ [[FLAG, A_RECEIVER, (if expectedSeq st = 0 then C_RR1 else C_RR0),
                         A_RECEIVER XOR (if expectedSeq st = 0 then C_RR1 else C_RR0), FLAG]]\<rparr>)"
  using assms
  by (simp add: llread_def llread_frame_def writeBytesSerialPort_def Let_def)

text \<open>
  C3. The frame \<open>7E 03 00 03 48 69 21 7E\<close> delivered twice to a receiver that expects
  sequence 0. The first call delivers \<open>48 69\<close> and answers RR1 (\<open>7E 01 85 84 7E\<close>); the
  second call returns \<open>-1\<close> and leaves the buffer alone, but answers RR0
  (\<open>7E 01 05 04 7E\<close>). A sender whose sequence bit is still 0 waits for RR1 or REJ0 and
  does not accept that answer.
\<close>

theorem llread_duplicate_answers_other_rr:
  "llread [0, 0, 0, 0]
     (initial_state (map RxByte [0x7E, 0x03, 0x00, 0x03, 0x48, 0x69, 0x21, 0x7E,
                                 0x7E, 0x03, 0x00, 0x03, 0x48, 0x69, 0x21, 0x7E])) =
   Some (2, [0x48, 0x69, 0, 0],
     \<lparr>sequenceNumber = 0, expectedSeq = 1,
      rx = map RxByte [0x7E, 0x03, 0x00, 0x03, 0x48, 0x69, 0x21, 0x7E],
      tx = [[0x7E, 0x01, 0x85, 0x84, 0x7E]]\<rparr>) \<and>
   llread [0x48, 0x69, 0, 0]
     \<lparr>sequenceNumber = 0, expectedSeq = 1,
      rx = map RxByte [0x7E, 0x03, 0x00, 0x03, 0x48, 0x69, 0x21, 0x7E],
      tx = [[0x7E, 0x01, 0x85, 0x84, 0x7E]]\<rparr> =
   Some (- 1, [0x48, 0x69, 0, 0],
     \<lparr>sequenceNumber = 0, expectedSeq = 1, rx = [],
      tx = [[0x7E, 0x01, 0x85, 0x84, 0x7E], [0x7E, 0x01, 0x05, 0x04, 0x7E]]\<rparr>) \<and>
   [0x7E, 0x01, 0x85, 0x84, 0x7E] \<noteq> [0x7E, 0x01, 0x05, 0x04, 0x7E :: u8] \<and>
   fst (await_ack 0 0 0 (map RxByte [0x7E, 0x01, 0x05, 0x04, 0x7E])) = False \<and>
   fst (await_ack 0 0 0 (map RxByte [0x7E, 0x01, 0x85, 0x84, 0x7E])) = True"
  by (simp add: llread_def llread_frame_def initial_state_def BCC2_def memcpy_def
      send_rej_def writeBytesSerialPort_def ack_step_def Let_def)

section \<open>Framing\<close>

lemma FLAG_notin_stuffData: "FLAG \<notin> set (stuffData s)"
  by (induction s) simp_all

lemma FLAG_notin_iframe_body:
  "FLAG \<notin> set (butlast (tl (iframe sn buf)))"
  by (simp add: iframe_def Let_def butlast_append FLAG_notin_stuffData)

lemma iframe_split:
  "iframe sn buf = FLAG # butlast (tl (iframe sn buf)) @ [FLAG]"
  by (simp add: iframe_def Let_def butlast_append)

lemma llread_frame_iframe:
  assumes "expectedSeq st = s" and "s = 0 \<or> s = 1"
  shows "llread_frame (iframe s buf) packet st =
     (int (length buf), buf @ drop (length buf) packet,
      st\<lparr>expectedSeq := s XOR 1,
         tx := tx st @ [[FLAG, A_RECEIVER, (if s = 0 then C_RR1 else C_RR0),
                         A_RECEIVER XOR (if s = 0 then C_RR1 else C_RR0), FLAG]]\<rparr>)"
proof -
  let ?stuffed = "stuffData (buf @ [BCC2 buf])"
  have body: "take (length (iframe s buf) - 5) (drop 4 (iframe s buf)) = ?stuffed"
    by (simp add: iframe_def Let_def)
  have data: "destuffData ?stuffed = buf @ [BCC2 buf]"
    by (rule destuffData_stuffData)
  have hdr: "5 \<le> length (iframe s buf)"
    "iframe s buf ! 1 XOR iframe s buf ! 2 = iframe s buf ! 3"
    "(if iframe s buf ! 2 AND 0x40 \<noteq> 0 then 1 else 0) = s"
    using assms(2) by (auto simp add: iframe_def Let_def)
  show ?thesis
    using hdr assms(1)
    by (simp add: llread_frame_def Let_def body data memcpy_def writeBytesSerialPort_def
        nth_append del: One_nat_def)
qed

text \<open>
  Inside a frame the capture loop stores every byte other than the flag and ignores empty
  reads and timer expiries; the next flag ends the frame.
\<close>

lemma capture_frame_body:
  "FLAG \<notin> set (bytes_of e) \<Longrightarrow> length acc + length (bytes_of e) \<le> 2048 \<Longrightarrow>
   capture_frame acc True (e @ RxByte FLAG # evs) = Some (acc @ bytes_of e @ [FLAG], evs)"
proof (induction e arbitrary: acc)
  case Nil
  then show ?case by simp
next
  case (Cons ev e)
  then show ?case by (cases ev) auto
qed

text \<open>
  Outside a frame the loop skips bytes other than the flag, empty reads and timer
  expiries; the first flag opens the frame.
\<close>

lemma capture_frame_stream:
  "bytes_of e = g @ FLAG # body \<Longrightarrow> FLAG \<notin> set g \<Longrightarrow> FLAG \<notin> set body \<Longrightarrow>
   length body < 2048 \<Longrightarrow>
   capture_frame acc False (e @ RxByte FLAG # evs) = Some (FLAG # body @ [FLAG], evs)"
proof (induction e arbitrary: g acc)
  case Nil
  then show ?case by simp
next
  case (Cons ev e)
  show ?case
  proof (cases ev)
    case (RxByte b)
    show ?thesis
    proof (cases g)
      case Nil
      with Cons.prems(1) RxByte have b: "b = FLAG" and be: "bytes_of e = body" by simp_all
      have "capture_frame [FLAG] True (e @ RxByte FLAG # evs) =
            Some ([FLAG] @ bytes_of e @ [FLAG], evs)"
        using Cons.prems(3,4) be by (intro capture_frame_body) simp_all
      then show ?thesis using RxByte b be by simp
    next
      case (Cons c g')
      with Cons.prems(1,2) RxByte have b: "b \<noteq> FLAG" and be: "bytes_of e = g' @ FLAG # body"
        and g': "FLAG \<notin> set g'" by auto
      from Cons.IH[OF be g' Cons.prems(3,4)] RxByte b show ?thesis by simp
    qed
  next
    case RxNone
    with Cons.prems(1) have "bytes_of e = g @ FLAG # body" by simp
    from Cons.IH[OF this Cons.prems(2,3,4)] RxNone show ?thesis by simp
  next
    case RxAlarm
    with Cons.prems(1) have "bytes_of e = g @ FLAG # body" by simp
    from Cons.IH[OF this Cons.prems(2,3,4)] RxAlarm show ?thesis by simp
  qed
qed

lemma capture_frame_arrives:
  assumes "frame_arrives ev (iframe sn buf)" and "length (iframe sn buf) \<le> 2048"
  shows "capture_frame [] False (ev @ evs) = Some (iframe sn buf, evs)"
proof -
  let ?body = "butlast (tl (iframe sn buf))"
  from assms(1) have ne: "ev \<noteq> []" and lst: "last ev = RxByte FLAG"
    and dw: "dropWhile (\<lambda>byte. byte \<noteq> FLAG) (bytes_of ev) = iframe sn buf"
    by (simp_all add: frame_arrives_def)
  from ne lst have ev: "ev = butlast ev @ [RxByte FLAG]"
    by (metis append_butlast_last_id)
  have bo: "bytes_of (xs @ [RxByte FLAG]) = bytes_of xs @ [FLAG]" for xs
    by (induction xs rule: bytes_of.induct) simp_all
  let ?g = "takeWhile (\<lambda>byte. byte \<noteq> FLAG) (bytes_of ev)"
  have "bytes_of ev = ?g @ iframe sn buf" using dw takeWhile_dropWhile_id[of "\<lambda>byte. byte \<noteq> FLAG" "bytes_of ev"] by simp
  then have "bytes_of (butlast ev) @ [FLAG] = (?g @ FLAG # ?body) @ [FLAG]"
    using bo[of "butlast ev"] ev iframe_split[of sn buf] by simp
  then have be: "bytes_of (butlast ev) = ?g @ FLAG # ?body" by (simp only: append_same_eq)
  have g: "FLAG \<notin> set ?g" by (auto dest: set_takeWhileD)
  have len: "length ?body < 2048"
    using assms(2) by (subst (asm) iframe_split) simp
  have "capture_frame [] False (butlast ev @ RxByte FLAG # evs) =
        Some (FLAG # ?body @ [FLAG], evs)"
    using be g FLAG_notin_iframe_body len by (rule capture_frame_stream)
  moreover have "butlast ev @ RxByte FLAG # evs = ev @ evs" using ev by (metis append.assoc append_Cons append_Nil)
  ultimately show ?thesis using iframe_split[of sn buf] by simp
qed

lemma llread_frame_arrives:
  assumes "expectedSeq st = s" and "s = 0 \<or> s = 1"
    and "length (iframe s buf) \<le> 2048"
    and "rx st = ev @ evs" and "frame_arrives ev (iframe s buf)"
  shows "llread packet st =
     Some (int (length buf), buf @ drop (length buf) packet,
      st\<lparr>expectedSeq := s XOR 1, rx := evs,
         tx := tx st @ [[FLAG, A_RECEIVER, (if s = 0 then C_RR1 else C_RR0),
                         A_RECEIVER XOR (if s = 0 then C_RR1 else C_RR0), FLAG]]\<rparr>)"
proof -
  have "capture_frame [] False (rx st) = Some (iframe s buf, evs)"
    using assms(3,4,5) by (simp add: capture_frame_arrives)
  moreover have "expectedSeq (st\<lparr>rx := evs\<rparr>) = s" using assms(1) by simp
  ultimately show ?thesis
    using llread_frame_iframe[of "st\<lparr>rx := evs\<rparr>" s buf packet] assms(2)
    by (simp add: llread_def)
qed


text \<open>
  C8 (as amended). \<open>llread\<close> skips the bytes other than \<open>7E\<close>, the empty reads and the
  timer expiries that come before an opening flag, and captures the bytes from that flag
  to the next flag. When the input brings two valid I-frames one after the other, each
  with its own opening and its own closing flag, of at most 2048 bytes each, with the
  sequence bits the receiver expects, and with only bytes other than \<open>7E\<close> before each
  opening flag, two successive calls capture and accept them: each returns the payload
  length, writes the payload to the caller's buffer, answers with RR and flips the
  expected bit.
\<close>

theorem llread_accepts_consecutive_frames:
  assumes "expectedSeq st = s" and "s = 0 \<or> s = 1"
    and "length (iframe s p1) \<le> 2048" and "length (iframe (s XOR 1) p2) \<le> 2048"
    and "rx st = ev1 @ ev2 @ evs"
    and "frame_arrives ev1 (iframe s p1)" and "frame_arrives ev2 (iframe (s XOR 1) p2)"
    and "st1 = st\<lparr>expectedSeq := s XOR 1, rx := ev2 @ evs,
           tx := tx st @ [[FLAG, A_RECEIVER, (if s = 0 then C_RR1 else C_RR0),
                           A_RECEIVER XOR (if s = 0 then C_RR1 else C_RR0), FLAG]]\<rparr>"
  shows "capture_frame [] False (rx st) = Some (iframe s p1, ev2 @ evs) \<and>
         llread packet st = Some (int (length p1), p1 @ drop (length p1) packet, st1) \<and>
         capture_frame [] False (rx st1) = Some (iframe (s XOR 1) p2, evs) \<and>
         llread packet1 st1 =
           Some (int (length p2), p2 @ drop (length p2) packet1,
             st1\<lparr>expectedSeq := s, rx := evs,
                tx := tx st1 @ [[FLAG, A_RECEIVER, (if s = 0 then C_RR0 else C_RR1),
                                 A_RECEIVER XOR (if s = 0 then C_RR0 else C_RR1), FLAG]]\<rparr>)"
proof -
  have rx0: "rx st = ev1 @ (ev2 @ evs)" using assms(5) by simp
  have cap1: "capture_frame [] False (rx st) = Some (iframe s p1, ev2 @ evs)"
    unfolding rx0 using assms(6) assms(3) by (rule capture_frame_arrives)
  have first: "llread packet st = Some (int (length p1), p1 @ drop (length p1) packet, st1)"
    using llread_frame_arrives[OF assms(1) assms(2) assms(3) rx0 assms(6), of packet] assms(8)
    by simp
  have s': "s XOR 1 = 0 \<or> s XOR 1 = 1" and flip2: "s XOR 1 XOR 1 = s"
    and sw: "(s XOR 1 = 0) = (s \<noteq> 0)"
    using assms(2) by auto
  have e1: "expectedSeq st1 = s XOR 1" and rx1: "rx st1 = ev2 @ evs"
    using assms(8) by simp_all
  have cap2: "capture_frame [] False (rx st1) = Some (iframe (s XOR 1) p2, evs)"
    unfolding rx1 using assms(7) assms(4) by (rule capture_frame_arrives)
  have second: "llread packet1 st1 =
           Some (int (length p2), p2 @ drop (length p2) packet1,
             st1\<lparr>expectedSeq := s, rx := evs,
                tx := tx st1 @ [[FLAG, A_RECEIVER, (if s = 0 then C_RR0 else C_RR1),
                                 A_RECEIVER XOR (if s = 0 then C_RR0 else C_RR1), FLAG]]\<rparr>)"
    using llread_frame_arrives[OF e1 s' assms(4) rx1 assms(7), of packet1] flip2 sw assms(2)
    by auto
  from cap1 first cap2 second show ?thesis by blast
qed

theorem llread_accepts_consecutive_frames_witness:
  "llread [0, 0, 0, 0]
     (initial_state
        ([RxByte 0x55, RxNone, RxByte 0x7E, RxByte 0x03, RxNone, RxByte 0x00, RxByte 0x03,
          RxByte 0x48, RxByte 0x69, RxByte 0x21, RxByte 0x7E] @
         [RxAlarm, RxByte 0x00, RxByte 0x7E, RxByte 0x03, RxByte 0x40, RxByte 0x43,
          RxByte 0x4F, RxByte 0x4B, RxByte 0x04, RxByte 0x7E] @
         [RxByte 0x11])) =
   Some (2, [0x48, 0x69, 0, 0],
     \<lparr>sequenceNumber = 0, expectedSeq = 1,
      rx = [RxAlarm, RxByte 0x00, RxByte 0x7E, RxByte 0x03, RxByte 0x40, RxByte 0x43,
            RxByte 0x4F, RxByte 0x4B, RxByte 0x04, RxByte 0x7E] @ [RxByte 0x11],
      tx = [[0x7E, 0x01, 0x85, 0x84, 0x7E]]\<rparr>) \<and>
   llread [0x48, 0x69, 0, 0]
     \<lparr>sequenceNumber = 0, expectedSeq = 1,
      rx = [RxAlarm, RxByte 0x00, RxByte 0x7E, RxByte 0x03, RxByte 0x40, RxByte 0x43,
            RxByte 0x4F, RxByte 0x4B, RxByte 0x04, RxByte 0x7E] @ [RxByte 0x11],
      tx = [[0x7E, 0x01, 0x85, 0x84, 0x7E]]\<rparr> =
   Some (2, [0x4F, 0x4B, 0, 0],
     \<lparr>sequenceNumber = 0, expectedSeq = 0, rx = [RxByte 0x11],
      tx = [[0x7E, 0x01, 0x85, 0x84, 0x7E], [0x7E, 0x01, 0x05, 0x04, 0x7E]]\<rparr>)"
proof -
  let ?ev1 = "[RxByte 0x55, RxNone, RxByte 0x7E, RxByte 0x03, RxNone, RxByte 0x00, RxByte 0x03,
          RxByte 0x48, RxByte 0x69, RxByte 0x21, RxByte 0x7E]"
  let ?ev2 = "[RxAlarm, RxByte 0x00, RxByte 0x7E, RxByte 0x03, RxByte 0x40, RxByte 0x43,
          RxByte 0x4F, RxByte 0x4B, RxByte 0x04, RxByte 0x7E]"
  let ?evs = "[RxByte 0x11]"
  let ?st = "initial_state (?ev1 @ ?ev2 @ ?evs)"
  let ?st1 = "\<lparr>sequenceNumber = 0, expectedSeq = 1, rx = ?ev2 @ ?evs,
      tx = [[0x7E, 0x01, 0x85, 0x84, 0x7E :: u8]]\<rparr>"
  have f1: "iframe 0 [0x48, 0x69] = [0x7E, 0x03, 0x00, 0x03, 0x48, 0x69, 0x21, 0x7E]"
    and f2: "iframe 1 [0x4F, 0x4B] = [0x7E, 0x03, 0x40, 0x43, 0x4F, 0x4B, 0x04, 0x7E]"
    by (simp_all add: iframe_def BCC2_def)
  have 1: "expectedSeq ?st = 0" by (simp add: initial_state_def)
  have 2: "(0::int) = 0 \<or> (0::int) = 1" by simp
  have 3: "length (iframe 0 [0x48, 0x69]) \<le> 2048" by (simp add: f1)
  have 4: "length (iframe (0 XOR 1) [0x4F, 0x4B]) \<le> 2048" by (simp add: f2)
  have 5: "rx ?st = ?ev1 @ ?ev2 @ ?evs" by (simp add: initial_state_def)
  have 6: "frame_arrives ?ev1 (iframe 0 [0x48, 0x69])"
    by (simp add: f1 frame_arrives_def)
  have 7: "frame_arrives ?ev2 (iframe (0 XOR 1) [0x4F, 0x4B])"
    by (simp add: f2 frame_arrives_def)
  have 8: "?st1 = ?st\<lparr>expectedSeq := 0 XOR 1, rx := ?ev2 @ ?evs,
           tx := tx ?st @ [[FLAG, A_RECEIVER, (if (0::int) = 0 then C_RR1 else C_RR0),
                           A_RECEIVER XOR (if (0::int) = 0 then C_RR1 else C_RR0), FLAG]]\<rparr>"
    by (simp add: initial_state_def)
  from llread_accepts_consecutive_frames[OF 1 2 3 4 5 6 7 8, of "[0, 0, 0, 0]" "[0x48, 0x69, 0, 0]"]
  show ?thesis by simp
qed

text \<open>
  The same two frames with one flag between them (the closing flag of the first is the
  only flag before the second body). The first call accepts the first frame. The second
  call starts outside a frame, skips the second frame's header, payload and BCC2 as
  inter-frame bytes, takes its closing flag for an opening flag and never returns on
  this input: the second frame is not accepted.
\<close>

theorem llread_shared_flag_counterexample:
  "llread [0, 0, 0, 0]
     (initial_state (map RxByte [0x7E, 0x03, 0x00, 0x03, 0x48, 0x69, 0x21, 0x7E,
                                 0x03, 0x40, 0x43, 0x4F, 0x4B, 0x04, 0x7E])) =
   Some (2, [0x48, 0x69, 0, 0],
     \<lparr>sequenceNumber = 0, expectedSeq = 1,
      rx = map RxByte [0x03, 0x40, 0x43, 0x4F, 0x4B, 0x04, 0x7E],
      tx = [[0x7E, 0x01, 0x85, 0x84, 0x7E]]\<rparr>) \<and>
   llread [0x48, 0x69, 0, 0]
     \<lparr>sequenceNumber = 0, expectedSeq = 1,
      rx = map RxByte [0x03, 0x40, 0x43, 0x4F, 0x4B, 0x04, 0x7E],
      tx = [[0x7E, 0x01, 0x85, 0x84, 0x7E]]\<rparr> = None"
  by (simp add: llread_def llread_frame_def initial_state_def BCC2_def memcpy_def
      send_rej_def writeBytesSerialPort_def Let_def)

section \<open>Sequence bits\<close>

lemma llwrite_call:
  "\<exists>k evs. 0 < k \<and> k \<le> MAX_RETRIES \<and>
     (llwrite buf st =
        (- 1, st\<lparr>rx := evs, tx := tx st @ replicate k (iframe (sequenceNumber st) buf)\<rparr>) \<or>
      llwrite buf st =
        (int (length buf),
         st\<lparr>sequenceNumber := sequenceNumber st XOR 1, rx := evs,
            tx := tx st @ replicate k (iframe (sequenceNumber st) buf)\<rparr>))"
proof -
  from llwrite_loop_shape[of 0 MAX_RETRIES buf st]
  obtain k evs where "k \<le> MAX_RETRIES" "0 < k"
    and "llwrite_loop MAX_RETRIES buf 0 st =
        (- 1, st\<lparr>rx := evs, tx := tx st @ replicate k (iframe (sequenceNumber st) buf)\<rparr>) \<or>
      llwrite_loop MAX_RETRIES buf 0 st =
        (int (length buf),
         st\<lparr>sequenceNumber := sequenceNumber st XOR 1, rx := evs,
            tx := tx st @ replicate k (iframe (sequenceNumber st) buf)\<rparr>)"
    by (auto simp add: MAX_RETRIES_def)
  then show ?thesis unfolding llwrite_def by blast
qed

lemma llwrite_seq_step:
  assumes "llwrite buf st = (ret, st')"
  shows "(ret = - 1 \<and> sequenceNumber st' = sequenceNumber st) \<or>
         (ret = int (length buf) \<and> sequenceNumber st' = sequenceNumber st XOR 1)"
  using llwrite_call[of buf st] assms by auto

lemma llwrite_frames:
  assumes "llwrite buf st = (ret, st')"
  shows "frames_carry_seq (sequenceNumber st, ret, drop (length (tx st)) (tx st'))"
proof -
  have c: "iframe (sequenceNumber st) buf ! 2 = (if sequenceNumber st = 0 then 0x00 else 0x40)"
    by (simp add: iframe_def Let_def)
  from llwrite_call[of buf st] assms
  obtain k where "0 < k" "tx st' = tx st @ replicate k (iframe (sequenceNumber st) buf)"
    by auto
  then show ?thesis using c
    by (auto simp add: frames_carry_seq_def list_all_iff)
qed

lemma llread_seq_step:
  assumes "llread packet st = Some (ret, packet', st')"
  shows "(ret = - 1 \<and> expectedSeq st' = expectedSeq st) \<or>
         (0 \<le> ret \<and> expectedSeq st' = expectedSeq st XOR 1)"
proof -
  from assms obtain frame evs
    where fr: "llread_frame frame packet (st\<lparr>rx := evs\<rparr>) = (ret, packet', st')"
    by (rule llread_SomeD)
  from llread_frame_cases[OF fr] show ?thesis by auto
qed

lemma bit_flip: "b = 0 \<or> b = 1 \<Longrightarrow> b XOR 1 = 1 - (b::int)"
  by auto

lemma llwrite_all_alternates:
  assumes "llwrite_all bufs st = (calls, st')"
    and "list_all (\<lambda>c. fst (snd c) \<noteq> - 1) calls"
    and "sequenceNumber st = 0 \<or> sequenceNumber st = 1"
  shows "alternates_from (sequenceNumber st) (map fst calls) \<and> list_all frames_carry_seq calls"
  using assms
proof (induction bufs arbitrary: st calls st')
  case Nil
  then show ?case by simp
next
  case (Cons buf bufs)
  obtain ret st1 where w: "llwrite buf st = (ret, st1)" by (cases "llwrite buf st") auto
  obtain calls1 st2 where a: "llwrite_all bufs st1 = (calls1, st2)"
    by (cases "llwrite_all bufs st1") auto
  from Cons.prems(1) w a
  have calls: "calls = (sequenceNumber st, ret, drop (length (tx st)) (tx st1)) # calls1"
    by simp
  with Cons.prems(2) have ok: "ret \<noteq> - 1" and rest: "list_all (\<lambda>c. fst (snd c) \<noteq> - 1) calls1"
    by simp_all
  from llwrite_seq_step[OF w] ok have "sequenceNumber st1 = sequenceNumber st XOR 1" by auto
  with Cons.prems(3) have sn1: "sequenceNumber st1 = 1 - sequenceNumber st"
    by (simp add: bit_flip)
  with Cons.prems(3) have b1: "sequenceNumber st1 = 0 \<or> sequenceNumber st1 = 1" by auto
  from Cons.IH[OF a rest b1] sn1 llwrite_frames[OF w] calls
  show ?case by simp
qed

lemma llread_all_alternates:
  assumes "llread_all n packet st = Some (calls, packet', st')"
    and "list_all (\<lambda>c. 0 \<le> snd c) calls"
    and "expectedSeq st = 0 \<or> expectedSeq st = 1"
  shows "alternates_from (expectedSeq st) (map fst calls)"
  using assms
proof (induction n arbitrary: packet st calls)
  case 0
  then show ?case by simp
next
  case (Suc n)
  from Suc.prems(1) obtain ret packet1 st1 calls1
    where r: "llread packet st = Some (ret, packet1, st1)"
      and a: "llread_all n packet1 st1 = Some (calls1, packet', st')"
      and calls: "calls = (expectedSeq st, ret) # calls1"
    by (auto split: option.splits)
  with Suc.prems(2) have ok: "0 \<le> ret" and rest: "list_all (\<lambda>c. 0 \<le> snd c) calls1"
    by simp_all
  from llread_seq_step[OF r] ok have "expectedSeq st1 = expectedSeq st XOR 1" by auto
  with Suc.prems(3) have sn1: "expectedSeq st1 = 1 - expectedSeq st"
    by (simp add: bit_flip)
  with Suc.prems(3) have b1: "expectedSeq st1 = 0 \<or> expectedSeq st1 = 1" by auto
  from Suc.IH[OF a rest b1] sn1 calls
  show ?case by simp
qed


lemma llwrite_loop_no_rr:
  "no_rr_accepted (N - r) (sequenceNumber st) (rx st) \<Longrightarrow> r \<le> N \<Longrightarrow>
   \<exists>evs. llwrite_loop N buf r st =
     (- 1, st\<lparr>rx := evs, tx := tx st @ replicate (N - r) (iframe (sequenceNumber st) buf)\<rparr>)"
proof (induction "N - r" arbitrary: r st)
  case 0
  then have "r = N" by simp
  then show ?case by (simp add: llwrite_loop.simps[of N buf N st]) (rule exI[of _ "rx st"], simp)
next
  case (Suc n)
  then have rlt: "r < N" and n: "n = N - (r + 1)" and Nr: "N - r = Suc n" by simp_all
  obtain a c evs where aw: "await_ack (sequenceNumber st) 0 0 (rx st) = (a, c, evs)"
    by (cases "await_ack (sequenceNumber st) 0 0 (rx st)") auto
  from Suc.prems(1) Nr aw
  have na: "\<not> (a \<and> c = (if sequenceNumber st = 0 then C_RR1 else C_RR0))"
    and rest: "no_rr_accepted n (sequenceNumber st) evs"
    by simp_all
  let ?st2 = "(writeBytesSerialPort (iframe (sequenceNumber st) buf) st)\<lparr>rx := evs\<rparr>"
  have step: "llwrite_loop N buf r st = llwrite_loop N buf (r + 1) ?st2"
    using rlt aw na by (subst llwrite_loop.simps) (auto simp add: writeBytesSerialPort_def Let_def)
  have "\<exists>evs'. llwrite_loop N buf (r + 1) ?st2 =
     (- 1, ?st2\<lparr>rx := evs', tx := tx ?st2 @ replicate (N - (r + 1)) (iframe (sequenceNumber ?st2) buf)\<rparr>)"
    using Suc.hyps(1)[of "r + 1" ?st2] n rest rlt by (simp add: writeBytesSerialPort_def)
  then show ?case using step Nr n
    by (auto simp add: writeBytesSerialPort_def replicate_app_Cons_same)
qed

text \<open>
  C4. A call of \<open>llwrite\<close> either fails and leaves the sender bit, or succeeds and
  flips it once; it fails and leaves the bit when no wait accepts the RR for the next
  sequence (every wait ends in REJ or with the timer). From the initial state, the calls
  of a run of successful \<open>llwrite\<close> calls are made with the bits 0, 1, 0, 1, ... and
  every frame of a call carries the control byte of the call's bit. Likewise a call of
  \<open>llread\<close> that returns flips the expected bit on a non-negative return and leaves it
  on \<open>-1\<close>, and the calls of a run of successful \<open>llread\<close> calls are made with the
  expected bits 0, 1, 0, 1, ...
\<close>

theorem sequence_bits_alternate:
  "(llwrite buf st = (ret, st') \<longrightarrow>
      (ret = - 1 \<and> sequenceNumber st' = sequenceNumber st) \<or>
      (ret = int (length buf) \<and> sequenceNumber st' = sequenceNumber st XOR 1)) \<and>
   (no_rr_accepted MAX_RETRIES (sequenceNumber wst) (rx wst) \<longrightarrow>
      fst (llwrite wbuf wst) = - 1 \<and>
      sequenceNumber (snd (llwrite wbuf wst)) = sequenceNumber wst) \<and>
   (llwrite_all bufs (initial_state evs) = (calls, stw) \<and>
      list_all (\<lambda>c. fst (snd c) \<noteq> - 1) calls \<longrightarrow>
      alternates_from 0 (map fst calls) \<and> list_all frames_carry_seq calls) \<and>
   (llread packet rst = Some (rret, packet', rst') \<longrightarrow>
      (rret = - 1 \<and> expectedSeq rst' = expectedSeq rst) \<or>
      (0 \<le> rret \<and> expectedSeq rst' = expectedSeq rst XOR 1)) \<and>
   (llread_all n rpacket (initial_state revs) = Some (rcalls, rpacket', rstn) \<and>
      list_all (\<lambda>c. 0 \<le> snd c) rcalls \<longrightarrow>
      alternates_from 0 (map fst rcalls))"
proof -
  have 1: "llwrite buf st = (ret, st') \<longrightarrow>
      (ret = - 1 \<and> sequenceNumber st' = sequenceNumber st) \<or>
      (ret = int (length buf) \<and> sequenceNumber st' = sequenceNumber st XOR 1)"
    using llwrite_seq_step by blast
  have 2: "no_rr_accepted MAX_RETRIES (sequenceNumber wst) (rx wst) \<longrightarrow>
      fst (llwrite wbuf wst) = - 1 \<and>
      sequenceNumber (snd (llwrite wbuf wst)) = sequenceNumber wst"
    using llwrite_loop_no_rr[of MAX_RETRIES 0 wst wbuf] by (auto simp add: llwrite_def)
  have 3: "llwrite_all bufs (initial_state evs) = (calls, stw) \<and>
      list_all (\<lambda>c. fst (snd c) \<noteq> - 1) calls \<longrightarrow>
      alternates_from 0 (map fst calls) \<and> list_all frames_carry_seq calls"
    using llwrite_all_alternates[of bufs "initial_state evs" calls stw]
    by (simp add: initial_state_def)
  have 4: "llread packet rst = Some (rret, packet', rst') \<longrightarrow>
      (rret = - 1 \<and> expectedSeq rst' = expectedSeq rst) \<or>
      (0 \<le> rret \<and> expectedSeq rst' = expectedSeq rst XOR 1)"
    using llread_seq_step by blast
  have 5: "llread_all n rpacket (initial_state revs) = Some (rcalls, rpacket', rstn) \<and>
      list_all (\<lambda>c. 0 \<le> snd c) rcalls \<longrightarrow>
      alternates_from 0 (map fst rcalls)"
    using llread_all_alternates[of n rpacket "initial_state revs" rcalls rpacket' rstn]
    by (simp add: initial_state_def)
  from 1 2 3 4 5 show ?thesis by blast
qed


theorem sequence_bits_alternate_witness:
  "llwrite [0x48, 0x69] (initial_state (map RxByte [0x7E, 0x01, 0x85, 0x84, 0x7E])) =
     (2, \<lparr>sequenceNumber = 1, expectedSeq = 0, rx = [],
          tx = [[0x7E, 0x03, 0x00, 0x03, 0x48, 0x69, 0x21, 0x7E]]\<rparr>) \<and>
   no_rr_accepted MAX_RETRIES 0 (map RxByte [0x7E, 0x01, 0x01, 0x00, 0x7E] @ [RxAlarm, RxAlarm]) \<and>
   fst (llwrite [0x48, 0x69]
          (initial_state (map RxByte [0x7E, 0x01, 0x01, 0x00, 0x7E] @ [RxAlarm, RxAlarm]))) = - 1 \<and>
   sequenceNumber (snd (llwrite [0x48, 0x69]
          (initial_state (map RxByte [0x7E, 0x01, 0x01, 0x00, 0x7E] @ [RxAlarm, RxAlarm])))) = 0 \<and>
   llwrite_all [[0x48, 0x69], [0x4F, 0x4B]]
     (initial_state (map RxByte [0x7E, 0x01, 0x85, 0x84, 0x7E, 0x7E, 0x01, 0x81, 0x80, 0x7E,
                                 0x7E, 0x01, 0x05, 0x04, 0x7E])) =
     ([(0, 2, [[0x7E, 0x03, 0x00, 0x03, 0x48, 0x69, 0x21, 0x7E]]),
       (1, 2, [[0x7E, 0x03, 0x40, 0x43, 0x4F, 0x4B, 0x04, 0x7E],
               [0x7E, 0x03, 0x40, 0x43, 0x4F, 0x4B, 0x04, 0x7E]])],
      \<lparr>sequenceNumber = 0, expectedSeq = 0, rx = [],
       tx = [[0x7E, 0x03, 0x00, 0x03, 0x48, 0x69, 0x21, 0x7E],
             [0x7E, 0x03, 0x40, 0x43, 0x4F, 0x4B, 0x04, 0x7E],
             [0x7E, 0x03, 0x40, 0x43, 0x4F, 0x4B, 0x04, 0x7E]]\<rparr>) \<and>
   alternates_from 0 [0, 1] \<and>
   llread [0, 0, 0, 0]
     (initial_state (map RxByte [0x7E, 0x03, 0x00, 0x03, 0x48, 0x69, 0x21, 0x7E])) =
     Some (2, [0x48, 0x69, 0, 0],
       \<lparr>sequenceNumber = 0, expectedSeq = 1, rx = [], tx = [[0x7E, 0x01, 0x85, 0x84, 0x7E]]\<rparr>) \<and>
   llread_all (Suc (Suc 0)) [0, 0, 0, 0]
     (initial_state (map RxByte [0x7E, 0x03, 0x00, 0x03, 0x48, 0x69, 0x21, 0x7E,
                                 0x7E, 0x03, 0x40, 0x43, 0x4F, 0x4B, 0x04, 0x7E])) =
     Some ([(0, 2), (1, 2)], [0x4F, 0x4B, 0, 0],
       \<lparr>sequenceNumber = 0, expectedSeq = 0, rx = [],
        tx = [[0x7E, 0x01, 0x85, 0x84, 0x7E], [0x7E, 0x01, 0x05, 0x04, 0x7E]]\<rparr>)"
proof -
  note ev = llwrite_def llwrite_loop.simps MAX_RETRIES_def initial_state_def iframe_def BCC2_def
    ack_step_def writeBytesSerialPort_def llread_def llread_frame_def memcpy_def send_rej_def
    Let_def
  have m3: "MAX_RETRIES = Suc (Suc (Suc 0))" by (simp add: MAX_RETRIES_def)
  have h1: "llwrite [0x48, 0x69] (initial_state (map RxByte [0x7E, 0x01, 0x85, 0x84, 0x7E])) =
     (2, \<lparr>sequenceNumber = 1, expectedSeq = 0, rx = [],
          tx = [[0x7E, 0x03, 0x00, 0x03, 0x48, 0x69, 0x21, 0x7E]]\<rparr>)"
    by (simp add: ev)
  have h2: "no_rr_accepted MAX_RETRIES
      (sequenceNumber (initial_state (map RxByte [0x7E, 0x01, 0x01, 0x00, 0x7E] @ [RxAlarm, RxAlarm])))
      (rx (initial_state (map RxByte [0x7E, 0x01, 0x01, 0x00, 0x7E] @ [RxAlarm, RxAlarm])))"
    by (simp add: m3 ack_step_def initial_state_def)
  have h3: "llwrite_all [[0x48, 0x69], [0x4F, 0x4B]]
     (initial_state (map RxByte [0x7E, 0x01, 0x85, 0x84, 0x7E, 0x7E, 0x01, 0x81, 0x80, 0x7E,
                                 0x7E, 0x01, 0x05, 0x04, 0x7E])) =
     ([(0, 2, [[0x7E, 0x03, 0x00, 0x03, 0x48, 0x69, 0x21, 0x7E]]),
       (1, 2, [[0x7E, 0x03, 0x40, 0x43, 0x4F, 0x4B, 0x04, 0x7E],
               [0x7E, 0x03, 0x40, 0x43, 0x4F, 0x4B, 0x04, 0x7E]])],
      \<lparr>sequenceNumber = 0, expectedSeq = 0, rx = [],
       tx = [[0x7E, 0x03, 0x00, 0x03, 0x48, 0x69, 0x21, 0x7E],
             [0x7E, 0x03, 0x40, 0x43, 0x4F, 0x4B, 0x04, 0x7E],
             [0x7E, 0x03, 0x40, 0x43, 0x4F, 0x4B, 0x04, 0x7E]]\<rparr>)"
    by (simp add: ev)
  have h4: "llread [0, 0, 0, 0]
     (initial_state (map RxByte [0x7E, 0x03, 0x00, 0x03, 0x48, 0x69, 0x21, 0x7E])) =
     Some (2, [0x48, 0x69, 0, 0],
       \<lparr>sequenceNumber = 0, expectedSeq = 1, rx = [], tx = [[0x7E, 0x01, 0x85, 0x84, 0x7E]]\<rparr>)"
    by (simp add: ev)
  have h5: "llread_all (Suc (Suc 0)) [0, 0, 0, 0]
     (initial_state (map RxByte [0x7E, 0x03, 0x00, 0x03, 0x48, 0x69, 0x21, 0x7E,
                                 0x7E, 0x03, 0x40, 0x43, 0x4F, 0x4B, 0x04, 0x7E])) =
     Some ([(0, 2), (1, 2)], [0x4F, 0x4B, 0, 0],
       \<lparr>sequenceNumber = 0, expectedSeq = 0, rx = [],
        tx = [[0x7E, 0x01, 0x85, 0x84, 0x7E], [0x7E, 0x01, 0x05, 0x04, 0x7E]]\<rparr>)"
    by (simp add: ev)
  have h2': "no_rr_accepted MAX_RETRIES 0
      (map RxByte [0x7E, 0x01, 0x01, 0x00, 0x7E] @ [RxAlarm, RxAlarm])"
    by (simp add: m3 ack_step_def)
  from sequence_bits_alternate
    [where buf = "[0x48, 0x69]"
       and st = "initial_state (map RxByte [0x7E, 0x01, 0x85, 0x84, 0x7E])"
       and ret = 2
       and st' = "\<lparr>sequenceNumber = 1, expectedSeq = 0, rx = [],
          tx = [[0x7E, 0x03, 0x00, 0x03, 0x48, 0x69, 0x21, 0x7E]]\<rparr>"
       and wbuf = "[0x48, 0x69]"
       and wst = "initial_state (map RxByte [0x7E, 0x01, 0x01, 0x00, 0x7E] @ [RxAlarm, RxAlarm])"
       and bufs = "[[0x48, 0x69], [0x4F, 0x4B]]"
       and evs = "map RxByte [0x7E, 0x01, 0x85, 0x84, 0x7E, 0x7E, 0x01, 0x81, 0x80, 0x7E,
                                 0x7E, 0x01, 0x05, 0x04, 0x7E]"
       and calls = "[(0, 2, [[0x7E, 0x03, 0x00, 0x03, 0x48, 0x69, 0x21, 0x7E]]),
       (1, 2, [[0x7E, 0x03, 0x40, 0x43, 0x4F, 0x4B, 0x04, 0x7E],
               [0x7E, 0x03, 0x40, 0x43, 0x4F, 0x4B, 0x04, 0x7E]])]"
       and stw = "\<lparr>sequenceNumber = 0, expectedSeq = 0, rx = [],
       tx = [[0x7E, 0x03, 0x00, 0x03, 0x48, 0x69, 0x21, 0x7E],
             [0x7E, 0x03, 0x40, 0x43, 0x4F, 0x4B, 0x04, 0x7E],
             [0x7E, 0x03, 0x40, 0x43, 0x4F, 0x4B, 0x04, 0x7E]]\<rparr>"
       and packet = "[0, 0, 0, 0]"
       and rst = "initial_state (map RxByte [0x7E, 0x03, 0x00, 0x03, 0x48, 0x69, 0x21, 0x7E])"
       and rret = 2 and packet' = "[0x48, 0x69, 0, 0]"
       and rst' = "\<lparr>sequenceNumber = 0, expectedSeq = 1, rx = [], tx = [[0x7E, 0x01, 0x85, 0x84, 0x7E]]\<rparr>"
       and n = "Suc (Suc 0)" and rpacket = "[0, 0, 0, 0]"
       and revs = "map RxByte [0x7E, 0x03, 0x00, 0x03, 0x48, 0x69, 0x21, 0x7E,
                                 0x7E, 0x03, 0x40, 0x43, 0x4F, 0x4B, 0x04, 0x7E]"
       and rcalls = "[(0, 2), (1, 2)]" and rpacket' = "[0x4F, 0x4B, 0, 0]"
       and rstn = "\<lparr>sequenceNumber = 0, expectedSeq = 0, rx = [],
        tx = [[0x7E, 0x01, 0x85, 0x84, 0x7E], [0x7E, 0x01, 0x05, 0x04, 0x7E]]\<rparr>"]
    h1 h2 h2' h3 h4 h5
  show ?thesis by (simp add: initial_state_def)
qed

section \<open>Control packet round trip\<close>

lemma signed_drop_bit_nonneg:
  fixes t :: long
  assumes "0 \<le>s t"
  shows "signed_drop_bit 8 t = drop_bit 8 t"
proof -
  from assms have "\<not> bit t 63"
    using bit_last_iff[of t] by (simp add: word_sle_eq)
  then show ?thesis
    by (intro bit_word_eqI) (auto simp add: bit_simps dest: bit_imp_le_length)
qed

lemma low_byte_recombine:
  fixes t :: long
  shows "push_bit 8 (drop_bit 8 t) OR ucast (ucast (t AND 0xFF) :: u8) = t"
proof -
  have m: "(0xFF :: long) = mask 8" by (simp add: mask_eq_exp_minus_1)
  show ?thesis unfolding m
  proof (rule bit_word_eqI)
    fix n
    assume "n < LENGTH(64)"
    show "bit (push_bit 8 (drop_bit 8 t) OR ucast (ucast (t AND mask 8) :: u8)) n = bit t n"
      by (cases "n < 8") (auto simp add: bit_simps dest: bit_imp_le_length)
  qed
qed

lemma drop_bit_nonneg:
  fixes t :: long
  assumes "0 \<le>s t"
  shows "0 \<le>s drop_bit 8 t"
  using assms signed_drop_bit_nonneg[OF assms, symmetric]
  by (simp add: word_sle_eq sint_signed_drop_bit_eq)

lemma sizeBytes_loop_value:
  "0 \<le>s t \<Longrightarrow>
   foldl (\<lambda>fs b. push_bit 8 fs OR ucast b) 0 (rev (sizeBytes_loop t)) = t"
proof (induction t rule: sizeBytes_loop.induct)
  case (1 t)
  have sd: "signed_drop_bit 8 t = drop_bit 8 t" using "1.prems" by (rule signed_drop_bit_nonneg)
  show ?case
  proof (cases "0 <s signed_drop_bit 8 t")
    case True
    have "0 \<le>s signed_drop_bit 8 t" using True by (simp add: word_sle_eq word_sless_alt)
    with "1.IH"[OF True]
    have ih: "foldl (\<lambda>fs b. push_bit 8 fs OR ucast b) 0 (rev (sizeBytes_loop (signed_drop_bit 8 t)))
        = signed_drop_bit 8 t" by simp
    have "sizeBytes_loop t = ucast (t AND 0xFF) # sizeBytes_loop (signed_drop_bit 8 t)"
      using True by (subst sizeBytes_loop.simps) simp
    then show ?thesis using ih sd low_byte_recombine[of t] by simp
  next
    case False
    have "0 \<le>s drop_bit 8 t" using "1.prems" by (rule drop_bit_nonneg)
    with False sd have z: "drop_bit 8 t = 0"
      by (simp add: word_sle_eq word_sless_alt) (metis signed_eq_0_iff)
    have "sizeBytes_loop t = [ucast (t AND 0xFF)]"
      using False by (subst sizeBytes_loop.simps) simp
    then show ?thesis using low_byte_recombine[of t] z by simp
  qed
qed


lemma sizeBytes_loop_length:
  "sint t < 2 ^ (8 * k) \<Longrightarrow> 0 < k \<Longrightarrow> length (sizeBytes_loop t) \<le> k"
proof (induction t arbitrary: k rule: sizeBytes_loop.induct)
  case (1 t)
  show ?case
  proof (cases "0 <s signed_drop_bit 8 t")
    case True
    then have pos: "0 < sint t div 256"
      by (simp add: word_sless_alt sint_signed_drop_bit_eq drop_bit_eq_div)
    have k2: "1 < k"
    proof (rule ccontr)
      assume "\<not> 1 < k"
      with "1.prems" have "k = 1" by simp
      with "1.prems" have "sint t < 256" by simp
      with pos show False by simp
    qed
    then obtain j where j: "k = Suc j" "0 < j" by (cases k) auto
    have "sint t < 2 ^ (8 * j) * 256" using "1.prems"(1) j by (simp add: power_add mult.commute)
    then have "sint t div 256 < 2 ^ (8 * j)" by (simp add: div_less_iff_less_mult)
    then have "sint (signed_drop_bit 8 t) < 2 ^ (8 * j)"
      by (simp add: sint_signed_drop_bit_eq drop_bit_eq_div)
    from "1.IH"[OF True this j(2)] have "length (sizeBytes_loop (signed_drop_bit 8 t)) \<le> j" .
    moreover have "sizeBytes_loop t = ucast (t AND 0xFF) # sizeBytes_loop (signed_drop_bit 8 t)"
      using True by (subst sizeBytes_loop.simps) simp
    ultimately show ?thesis using j by simp
  next
    case False
    have "sizeBytes_loop t = [ucast (t AND 0xFF)]"
      using False by (subst sizeBytes_loop.simps) simp
    then show ?thesis using "1.prems" by simp
  qed
qed

lemma sizeBytes_loop_length_8: "length (sizeBytes_loop t) \<le> 8"
proof -
  have "sint t < 2 ^ (LENGTH(64) - 1)" by (rule sint_lt)
  then have "sint t < 2 ^ (8 * 8)" by simp
  then show ?thesis by (rule sizeBytes_loop_length) simp
qed

lemma sizeBytes_loop_nonempty: "sizeBytes_loop t \<noteq> []"
  by (subst sizeBytes_loop.simps) simp

lemma parse_loop_size_tlv:
  assumes "idx + 1 < ps" and "packet ! idx = TLV_FILE_SIZE"
    and "unat (packet ! (idx + 1)) = len" and "idx + 2 + len \<le> ps"
  shows "parse_loop packet ps idx fs fn =
         parse_loop packet ps (idx + 2 + len)
           (foldl (\<lambda>fs b. push_bit 8 fs OR ucast b) fs (take len (drop (idx + 2) packet))) fn"
  using assms by (subst parse_loop.simps) (simp add: Let_def)

lemma parse_loop_name_tlv:
  assumes "idx + 1 < ps" and "packet ! idx = TLV_FILE_NAME"
    and "unat (packet ! (idx + 1)) = len" and "idx + 2 + len \<le> ps"
  shows "parse_loop packet ps idx fs fn =
         parse_loop packet ps (idx + 2 + len) fs (take len (drop (idx + 2) packet))"
  using assms by (subst parse_loop.simps) (simp add: Let_def)

lemma parse_loop_done: "parse_loop packet ps ps fs fn = (0, fs, fn)"
  by (subst parse_loop.simps) simp

lemma parse_two_tlvs:
  assumes "length sb < 256" and "length name < 256"
  shows "parse_loop ([cf, TLV_FILE_SIZE, of_nat (length sb)] @ sb @
                     [TLV_FILE_NAME, of_nat (length name)] @ name)
           (length sb + length name + 5) 1 0 [] =
         (0, foldl (\<lambda>fs b. push_bit 8 fs OR ucast b) 0 sb, name)"
proof -
  let ?packet = "[cf, TLV_FILE_SIZE, of_nat (length sb)] @ sb @
                 [TLV_FILE_NAME, of_nat (length name)] @ name"
  let ?ps = "length sb + length name + 5"
  let ?fs = "foldl (\<lambda>fs b. push_bit 8 fs OR ucast b) (0 :: long) sb"
  have n: "unat (of_nat (length sb) :: u8) = length sb"
    and m: "unat (of_nat (length name) :: u8) = length name"
    using assms by (simp_all add: unat_of_nat)
  have 1: "parse_loop ?packet ?ps 1 0 [] =
           parse_loop ?packet ?ps (1 + 2 + length sb)
             (foldl (\<lambda>fs b. push_bit 8 fs OR ucast b) 0
                (take (length sb) (drop (1 + 2) ?packet))) []"
    by (rule parse_loop_size_tlv) (simp_all add: n)
  have t1: "take (length sb) (drop (1 + 2) ?packet) = sb" by simp
  have 2: "parse_loop ?packet ?ps (1 + 2 + length sb) ?fs [] =
           parse_loop ?packet ?ps (1 + 2 + length sb + 2 + length name) ?fs
             (take (length name) (drop (1 + 2 + length sb + 2) ?packet))"
    by (rule parse_loop_name_tlv) (simp_all add: m nth_append)
  have t2: "take (length name) (drop (1 + 2 + length sb + 2) ?packet) = name" by simp
  have e: "1 + 2 + length sb + 2 + length name = ?ps" by simp
  show ?thesis by (simp only: 1 t1 2 t2 e parse_loop_done)
qed

lemma strlen_no_nul: "0 \<notin> set s \<Longrightarrow> strlen s = length s"
  by (induction s) (simp_all add: strlen_def)

lemma parse_build_roundtrip:
  assumes "0 \<le>s fileSize" and "length filename \<le> 255" and "0 \<notin> set filename"
  shows "parseControlPacket (buildControlPacket cf filename fileSize)
           (length (buildControlPacket cf filename fileSize)) = (0, fileSize, filename)"
proof -
  let ?sb = "rev (sizeBytes_loop fileSize)"
  have nl: "(if strlen filename > 255 then 255 else strlen filename) = length filename"
    using assms(2,3) by (simp add: strlen_no_nul)
  have b: "buildControlPacket cf filename fileSize =
      [cf, TLV_FILE_SIZE, of_nat (length ?sb)] @ ?sb @
      [TLV_FILE_NAME, of_nat (length filename)] @ filename"
    unfolding buildControlPacket_def Let_def nl by simp
  have len: "length (buildControlPacket cf filename fileSize) = length ?sb + length filename + 5"
    unfolding b by simp
  have l1: "length ?sb < 256" using sizeBytes_loop_length_8[of fileSize] by simp
  have l2: "length filename < 256" using assms(2) by simp
  show ?thesis
    unfolding parseControlPacket_def len
    unfolding b
    using parse_two_tlvs[OF l1 l2, of cf] sizeBytes_loop_value[OF assms(1)] by simp
qed


lemma unat_low_byte:
  fixes t :: long
  shows "unat (ucast (t AND 0xFF) :: u8) = unat t mod 256"
proof -
  have m: "(0xFF :: long) = mask 8" by (simp add: mask_eq_exp_minus_1)
  have "unat (ucast (t AND mask 8) :: u8) = take_bit 8 (unat t)"
    by (simp add: unsigned_ucast_eq unsigned_take_bit_eq flip: take_bit_eq_mask)
  then show ?thesis unfolding m by (simp add: take_bit_eq_mod)
qed

lemma unat_high_bytes:
  fixes t :: long
  shows "unat (drop_bit 8 t) = unat t div 256"
  by (simp only: unat_drop_bit_eq) (simp add: drop_bit_eq_div)

lemma sizeBytes_loop_big_endian:
  "0 \<le>s t \<Longrightarrow> foldl (\<lambda>a b. 256 * a + unat b) 0 (rev (sizeBytes_loop t)) = unat t"
proof (induction t rule: sizeBytes_loop.induct)
  case (1 t)
  have sd: "signed_drop_bit 8 t = drop_bit 8 t" using "1.prems" by (rule signed_drop_bit_nonneg)
  show ?case
  proof (cases "0 <s signed_drop_bit 8 t")
    case True
    have "0 \<le>s signed_drop_bit 8 t" using True by (simp add: word_sle_eq word_sless_alt)
    with "1.IH"[OF True]
    have ih: "foldl (\<lambda>a b. 256 * a + unat b) 0 (rev (sizeBytes_loop (signed_drop_bit 8 t)))
        = unat (signed_drop_bit 8 t)" by simp
    have "sizeBytes_loop t = ucast (t AND 0xFF) # sizeBytes_loop (signed_drop_bit 8 t)"
      using True by (subst sizeBytes_loop.simps) simp
    then show ?thesis using ih sd unat_low_byte[of t] unat_high_bytes[of t] by simp
  next
    case False
    have "0 \<le>s drop_bit 8 t" using "1.prems" by (rule drop_bit_nonneg)
    with False sd have z: "drop_bit 8 t = 0"
      by (simp add: word_sle_eq word_sless_alt) (metis signed_eq_0_iff)
    have "sizeBytes_loop t = [ucast (t AND 0xFF)]"
      using False by (subst sizeBytes_loop.simps) simp
    then show ?thesis using unat_low_byte[of t] unat_high_bytes[of t] z by simp
  qed
qed


text \<open>
  C9. For every file size that is not negative and every file name of at most 255 bytes
  (the bytes of a C string, none of them NUL), \<open>parseControlPacket\<close> applied to the
  packet of \<open>buildControlPacket\<close> and its length returns 0 with that file size and that
  name. The packet is the control field, the TLV \<open>00 n V\<close> and the TLV \<open>01 m name\<close>,
  where the \<open>n\<close> value bytes \<open>V\<close> (between 1 and 8) are the file size with the most
  significant byte first.
\<close>

theorem control_packet_roundtrip:
  assumes "0 \<le>s fileSize" and "length filename \<le> 255" and "0 \<notin> set filename"
  shows "parseControlPacket (buildControlPacket cf filename fileSize)
           (length (buildControlPacket cf filename fileSize)) = (0, fileSize, filename) \<and>
         (\<exists>V. buildControlPacket cf filename fileSize =
                [cf, 0x00, of_nat (length V)] @ V @ [0x01, of_nat (length filename)] @ filename \<and>
              V \<noteq> [] \<and> length V \<le> 8 \<and>
              foldl (\<lambda>a b. 256 * a + unat b) 0 V = unat fileSize)"
proof -
  let ?V = "rev (sizeBytes_loop fileSize)"
  have nl: "(if strlen filename > 255 then 255 else strlen filename) = length filename"
    using assms(2,3) by (simp add: strlen_no_nul)
  have b: "buildControlPacket cf filename fileSize =
      [cf, 0x00, of_nat (length ?V)] @ ?V @ [0x01, of_nat (length filename)] @ filename"
    unfolding buildControlPacket_def Let_def nl by simp
  have "?V \<noteq> []" using sizeBytes_loop_nonempty[of fileSize] by simp
  moreover have "length ?V \<le> 8" using sizeBytes_loop_length_8[of fileSize] by simp
  moreover have "foldl (\<lambda>a b. 256 * a + unat b) 0 ?V = unat fileSize"
    using assms(1) by (rule sizeBytes_loop_big_endian)
  ultimately have wire: "\<exists>V. buildControlPacket cf filename fileSize =
                [cf, 0x00, of_nat (length V)] @ V @ [0x01, of_nat (length filename)] @ filename \<and>
              V \<noteq> [] \<and> length V \<le> 8 \<and>
              foldl (\<lambda>a b. 256 * a + unat b) 0 V = unat fileSize"
    using b by blast
  from parse_build_roundtrip[OF assms] wire show ?thesis by blast
qed

theorem control_packet_roundtrip_witness:
  "0 \<le>s (0x012345 :: long) \<and>
   buildControlPacket 0x02 [0x61, 0x2E, 0x74] 0x012345 =
     [0x02, 0x00, 0x03, 0x01, 0x23, 0x45, 0x01, 0x03, 0x61, 0x2E, 0x74] \<and>
   parseControlPacket [0x02, 0x00, 0x03, 0x01, 0x23, 0x45, 0x01, 0x03, 0x61, 0x2E, 0x74] 11 =
     (0, 0x012345, [0x61, 0x2E, 0x74])"
proof -
  have 1: "0 \<le>s (0x012345 :: long)" by (simp add: word_sle_eq)
  have 2: "length [0x61, 0x2E, 0x74 :: u8] \<le> 255" by simp
  have 3: "0 \<notin> set [0x61, 0x2E, 0x74 :: u8]" by simp
  have b: "buildControlPacket 0x02 [0x61, 0x2E, 0x74] 0x012345 =
     [0x02, 0x00, 0x03, 0x01, 0x23, 0x45, 0x01, 0x03, 0x61, 0x2E, 0x74]"
    by (simp add: buildControlPacket_def sizeBytes_loop.simps strlen_def word_sless_alt)
  have e: "length [0x02, 0x00, 0x03, 0x01, 0x23, 0x45, 0x01, 0x03, 0x61, 0x2E, 0x74 :: u8] = 11"
    by simp
  from control_packet_roundtrip[where cf = "0x02", OF 1 2 3]
  have "parseControlPacket (buildControlPacket 0x02 [0x61, 0x2E, 0x74] 0x012345)
          (length (buildControlPacket 0x02 [0x61, 0x2E, 0x74] 0x012345)) =
        (0, 0x012345, [0x61, 0x2E, 0x74])"
    by (rule conjunct1)
  then have "parseControlPacket [0x02, 0x00, 0x03, 0x01, 0x23, 0x45, 0x01, 0x03, 0x61, 0x2E, 0x74] 11 =
     (0, 0x012345, [0x61, 0x2E, 0x74])"
    by (simp only: b e)
  with 1 b show ?thesis by blast
qed

end
